theory Spec2Isabelle
  imports Main "HOL-Library.Sublist" "HOL-Library.Multiset"
begin

section \<open>Strings and dates of the host language\<close>

text \<open>
  A string is a list of 8-bit characters, read as the code points U+0000 to U+00FF (every
  login GitHub issues is ASCII). \<open>toLowerCase\<close>, \<open>trim\<close>, \<open>endsWith\<close> and \<open>includes\<close>
  (here \<open>includes_str\<close>) are the built-in string methods the normalizer calls, written
  out on that range.
\<close>

definition toLowerChar :: "char \<Rightarrow> char" where
  "toLowerChar c =
     (let n = (of_char c :: nat)
      in if (65 \<le> n \<and> n \<le> 90) \<or> (192 \<le> n \<and> n \<le> 222 \<and> n \<noteq> 215)
         then char_of (n + 32) else c)"

definition toLowerCase :: "string \<Rightarrow> string" where
  "toLowerCase s = map toLowerChar s"

definition isWhiteSpace :: "char \<Rightarrow> bool" where
  "isWhiteSpace c = ((of_char c :: nat) \<in> {9, 10, 11, 12, 13, 32, 160})"

definition trim :: "string \<Rightarrow> string" where
  "trim s = rev (dropWhile isWhiteSpace (rev (dropWhile isWhiteSpace s)))"

definition endsWith :: "string \<Rightarrow> string \<Rightarrow> bool" where
  "endsWith s suf = (length suf \<le> length s \<and> drop (length s - length suf) s = suf)"

fun includes_str :: "string \<Rightarrow> string \<Rightarrow> bool" where
  "includes_str [] p = (p = [])"
| "includes_str (c # cs) p = (take (length p) (c # cs) = p \<or> includes_str cs p)"

text \<open>
  \<open>new Date(s)\<close> is the platform's parser, not code of the repository: every function that
  builds a date takes it as the parameter \<open>dp\<close>. A date is a time value in milliseconds
  since the epoch or the invalid date, whose time value is NaN; every comparison with NaN
  is false. Time values are integers below \<open>2^53\<close> in magnitude, so the sign of a
  difference of two of them is the sign of the integer difference.
\<close>

datatype jsdate = InvalidDate | Date int

fun date_gt :: "jsdate \<Rightarrow> jsdate \<Rightarrow> bool" where
  "date_gt (Date x) (Date y) = (y < x)"
| "date_gt _ _ = False"

fun date_le :: "jsdate \<Rightarrow> jsdate \<Rightarrow> bool" where
  "date_le (Date x) (Date y) = (x \<le> y)"
| "date_le _ _ = False"

text \<open>\<open>getTime\<close>: \<open>None\<close> is NaN.\<close>

fun getTime :: "jsdate \<Rightarrow> int option" where
  "getTime (Date x) = Some x"
| "getTime InvalidDate = None"

text \<open>A string is truthy when it is not empty; an absent one is falsy.\<close>

fun truthy :: "string option \<Rightarrow> bool" where
  "truthy None = False"
| "truthy (Some s) = (s \<noteq> [])"

section \<open>Bot detection\<close>

definition BOT_AUTHOR_PATTERNS :: "string list" where
  "BOT_AUTHOR_PATTERNS =
     [''github-actions'', ''sonar'', ''sonarcloud'', ''sonarqube'', ''dependabot'',
      ''renovate'', ''codecov'', ''vercel'', ''netlify'', ''circleci'', ''travisci'',
      ''sizebot'', ''[bot]'', ''-bot'', ''bot-'']"

definition endsWithBot :: "string \<Rightarrow> bool" where
  "endsWithBot author = endsWith (toLowerCase author) ''bot''"

fun includesAny :: "string \<Rightarrow> string list \<Rightarrow> bool" where
  "includesAny s [] = False"
| "includesAny s (pattern # rest) = (if includes_str s pattern then True else includesAny s rest)"

definition isLikelyBot :: "string \<Rightarrow> bool" where
  "isLikelyBot author =
     (let authorLower = toLowerCase author
      in if endsWithBot author then True
         else includesAny authorLower BOT_AUTHOR_PATTERNS)"

section \<open>The data model\<close>

text \<open>
  The records of \<open>types.ts\<close>. A nullable or optional field is an \<open>option\<close>; a nullable
  \<open>{login}\<close> object is the optional login. Field names carry a prefix for their record.
\<close>

record review =
  rv_author :: "string option"
  rv_state :: string
  rv_submittedAt :: "string option"
  rv_body :: "string option"

record pRView =
  pr_title :: string
  pr_url :: string
  pr_author :: string
  pr_state :: string
  pr_createdAt :: string
  pr_updatedAt :: string
  pr_baseRefName :: string
  pr_headRefName :: string
  pr_reviews :: "review list"

record issueComment =
  ic_user :: "string option"
  ic_created_at :: string
  ic_body :: "string option"
  ic_html_url :: string
  ic_id :: int

record inlineMessage =
  im_id :: string
  im_author :: string
  im_createdAt :: string
  im_body :: string
  im_url :: string

record inlineComment =
  th_path :: string
  th_line :: "int option"
  th_originalLine :: "int option"
  th_isResolved :: bool
  th_isOutdated :: bool
  th_comments :: "inlineMessage list"

datatype commentKind = inline_comment | review_body | pr_comment

record normalizedComment =
  nc_id :: string
  nc_kind :: commentKind
  nc_author :: string
  nc_createdAt :: "string option"
  nc_state :: "string option"
  nc_filePath :: "string option"
  nc_line :: "int option"
  nc_isResolved :: "bool option"
  nc_body :: string
  nc_url :: "string option"
  nc_isBot :: bool

text \<open>
  The decimal text a template literal gives an identifier; GitHub's numeric identifiers are
  integers below \<open>2^53\<close>.
\<close>

fun digits :: "nat \<Rightarrow> string" where
  "digits n = (if n < 10 then [char_of (48 + n)] else digits (n div 10) @ [char_of (48 + n mod 10)])"

declare digits.simps [simp del]

definition numberToString :: "int \<Rightarrow> string" where
  "numberToString i = (if i < 0 then CHR ''-'' # digits (nat (- i)) else digits (nat i))"

section \<open>The PR author's last activity\<close>

text \<open>
  One pass of the loop body \<open>if (!lastActivity || date > lastActivity) lastActivity = date\<close>.
\<close>

fun bumpActivity :: "jsdate option \<Rightarrow> jsdate \<Rightarrow> jsdate option" where
  "bumpActivity None date = Some date"
| "bumpActivity (Some lastActivity) date =
     (if date_gt date lastActivity then Some date else Some lastActivity)"

definition issueActivity ::
  "(string \<Rightarrow> jsdate) \<Rightarrow> string \<Rightarrow> jsdate option \<Rightarrow> issueComment \<Rightarrow> jsdate option" where
  "issueActivity dp prAuthor lastActivity comment =
     (if ic_user comment = Some prAuthor \<and> ic_created_at comment \<noteq> []
      then bumpActivity lastActivity (dp (ic_created_at comment))
      else lastActivity)"

definition messageActivity ::
  "(string \<Rightarrow> jsdate) \<Rightarrow> string \<Rightarrow> jsdate option \<Rightarrow> inlineMessage \<Rightarrow> jsdate option" where
  "messageActivity dp prAuthor lastActivity comment =
     (if im_author comment = prAuthor \<and> im_createdAt comment \<noteq> []
      then bumpActivity lastActivity (dp (im_createdAt comment))
      else lastActivity)"

definition findAuthorLastActivity ::
  "(string \<Rightarrow> jsdate) \<Rightarrow> string \<Rightarrow> issueComment list \<Rightarrow> inlineComment list \<Rightarrow> jsdate option" where
  "findAuthorLastActivity dp prAuthor issueComments inlineComments =
     foldl (\<lambda>lastActivity thread. foldl (messageActivity dp prAuthor) lastActivity (th_comments thread))
       (foldl (issueActivity dp prAuthor) None issueComments)
       inlineComments"

section \<open>Review verdicts\<close>

text \<open>
  \<open>latestByAuthor\<close> is a \<open>Map\<close>: an association list in insertion order, where \<open>set\<close> on a
  key already present replaces the value in place and a new key goes to the end.
\<close>

fun map_set :: "('k \<times> 'v) list \<Rightarrow> 'k \<Rightarrow> 'v \<Rightarrow> ('k \<times> 'v) list" where
  "map_set [] k v = [(k, v)]"
| "map_set ((k', v') # m) k v = (if k' = k then (k, v) # m else (k', v') # map_set m k v)"

definition reviewStep ::
  "(string \<Rightarrow> jsdate) \<Rightarrow> string \<Rightarrow> jsdate option \<Rightarrow> (string \<times> review) list \<Rightarrow> review
     \<Rightarrow> (string \<times> review) list" where
  "reviewStep dp prAuthor authorLastActivity latestByAuthor review =
     (case rv_author review of
        None \<Rightarrow> latestByAuthor
      | Some author \<Rightarrow>
          if isLikelyBot author then latestByAuthor
          else if author = prAuthor then latestByAuthor
          else if authorLastActivity \<noteq> None \<and> truthy (rv_submittedAt review)
                  \<and> date_le (dp (the (rv_submittedAt review))) (the authorLastActivity)
          then latestByAuthor
          else (case map_of latestByAuthor author of
                  None \<Rightarrow> map_set latestByAuthor author review
                | Some existing \<Rightarrow>
                    if truthy (rv_submittedAt review) \<and> truthy (rv_submittedAt existing)
                       \<and> date_gt (dp (the (rv_submittedAt review)))
                                 (dp (the (rv_submittedAt existing)))
                    then map_set latestByAuthor author review
                    else latestByAuthor))"

definition latestReviews ::
  "(string \<Rightarrow> jsdate) \<Rightarrow> string \<Rightarrow> jsdate option \<Rightarrow> review list \<Rightarrow> (string \<times> review) list" where
  "latestReviews dp prAuthor authorLastActivity reviews =
     foldl (reviewStep dp prAuthor authorLastActivity) [] reviews"

definition hasBody :: "review \<Rightarrow> bool" where
  "hasBody review = (truthy (rv_body review) \<and> trim (the (rv_body review)) \<noteq> [])"

definition emitReview :: "pRView \<Rightarrow> string \<times> review \<Rightarrow> normalizedComment option" where
  "emitReview prView entry =
     (let author = fst entry; review = snd entry;
          isChangesRequested = (rv_state review = ''CHANGES_REQUESTED'');
          isApproved = (rv_state review = ''APPROVED'')
      in if isApproved \<and> \<not> hasBody review then None
         else if \<not> hasBody review \<and> \<not> isChangesRequested then None
         else Some \<lparr> nc_id = ''review-'' @ author,
                     nc_kind = review_body,
                     nc_author = author,
                     nc_createdAt = (if truthy (rv_submittedAt review) then rv_submittedAt review else None),
                     nc_state = Some (rv_state review),
                     nc_filePath = None,
                     nc_line = None,
                     nc_isResolved = None,
                     nc_body = (if truthy (rv_body review) then the (rv_body review)
                                else ''['' @ rv_state review @ '']''),
                     nc_url = Some (pr_url prView),
                     nc_isBot = False \<rparr>)"

definition normalizeReviews ::
  "(string \<Rightarrow> jsdate) \<Rightarrow> pRView \<Rightarrow> jsdate option \<Rightarrow> normalizedComment list" where
  "normalizeReviews dp prView authorLastActivity =
     List.map_filter (emitReview prView)
       (latestReviews dp (pr_author prView) authorLastActivity (pr_reviews prView))"

section \<open>Conversation comments\<close>

text \<open>One pass of the loop: \<open>None\<close> is \<open>continue\<close>.\<close>

definition normalizeIssueComment ::
  "(string \<Rightarrow> jsdate) \<Rightarrow> string \<Rightarrow> jsdate option \<Rightarrow> issueComment \<Rightarrow> normalizedComment option" where
  "normalizeIssueComment dp prAuthor authorLastActivity comment =
     (case ic_user comment of
        None \<Rightarrow> None
      | Some author \<Rightarrow>
          let body = (if truthy (ic_body comment) then the (ic_body comment) else [])
          in if trim body = [] then None
             else if isLikelyBot author then None
             else if author = prAuthor then None
             else if authorLastActivity \<noteq> None \<and> ic_created_at comment \<noteq> []
                     \<and> date_le (dp (ic_created_at comment)) (the authorLastActivity)
             then None
             else Some \<lparr> nc_id = ''comment-'' @ numberToString (ic_id comment),
                         nc_kind = pr_comment,
                         nc_author = author,
                         nc_createdAt = Some (ic_created_at comment),
                         nc_state = None,
                         nc_filePath = None,
                         nc_line = None,
                         nc_isResolved = None,
                         nc_body = body,
                         nc_url = Some (ic_html_url comment),
                         nc_isBot = False \<rparr>)"

definition normalizeIssueComments ::
  "(string \<Rightarrow> jsdate) \<Rightarrow> issueComment list \<Rightarrow> string \<Rightarrow> jsdate option \<Rightarrow> normalizedComment list" where
  "normalizeIssueComments dp comments prAuthor authorLastActivity =
     List.map_filter (normalizeIssueComment dp prAuthor authorLastActivity) comments"

section \<open>Inline threads\<close>

definition inlineResult :: "inlineComment \<Rightarrow> inlineMessage \<Rightarrow> normalizedComment" where
  "inlineResult thread latestComment =
     \<lparr> nc_id = ''inline-'' @ im_id latestComment,
       nc_kind = inline_comment,
       nc_author = im_author latestComment,
       nc_createdAt = Some (im_createdAt latestComment),
       nc_state = None,
       nc_filePath = Some (th_path thread),
       nc_line = (case th_line thread of Some l \<Rightarrow> Some l | None \<Rightarrow> th_originalLine thread),
       nc_isResolved = Some False,
       nc_body = im_body latestComment,
       nc_url = Some (im_url latestComment),
       nc_isBot = False \<rparr>"

definition isReviewerComment :: "string \<Rightarrow> inlineMessage \<Rightarrow> bool" where
  "isReviewerComment prAuthor c =
     (if isLikelyBot (im_author c) then False
      else if im_author c = prAuthor then False
      else True)"

text \<open>
  One pass of the loop over the threads: the empty list is \<open>continue\<close>. \<open>authorComments\<close> is
  read at its last index only when \<open>authorReplied\<close> holds, where it is not empty; so is
  \<open>newComments\<close> after its length test and \<open>reviewerComments\<close> after its own.
\<close>

definition normalizeThread ::
  "(string \<Rightarrow> jsdate) \<Rightarrow> string \<Rightarrow> inlineComment \<Rightarrow> normalizedComment list" where
  "normalizeThread dp prAuthor thread =
     (if th_isResolved thread then []
      else if th_isOutdated thread then []
      else
        let authorReplied = list_ex (\<lambda>c. im_author c = prAuthor) (th_comments thread);
            reviewerComments = filter (isReviewerComment prAuthor) (th_comments thread)
        in if reviewerComments = [] then []
           else if authorReplied then
             (let authorComments = filter (\<lambda>c. im_author c = prAuthor) (th_comments thread);
                  lastAuthorReply = last authorComments;
                  lastAuthorDate = dp (im_createdAt lastAuthorReply);
                  newComments = filter (\<lambda>c. date_gt (dp (im_createdAt c)) lastAuthorDate)
                                  reviewerComments
              in if newComments = [] then []
                 else [inlineResult thread (last newComments)])
           else [inlineResult thread (last reviewerComments)])"

definition normalizeInlineComments ::
  "(string \<Rightarrow> jsdate) \<Rightarrow> inlineComment list \<Rightarrow> string \<Rightarrow> normalizedComment list" where
  "normalizeInlineComments dp threads prAuthor = concat (map (normalizeThread dp prAuthor) threads)"

section \<open>Merge and order\<close>

text \<open>
  \<open>Array.prototype.sort\<close> with a comparator is the platform's: a stable sort, where a
  comparator result of NaN counts as zero. \<open>array_sort\<close> is the stable insertion sort; on a
  consistent comparator every stable sort gives the same array. The comparator is the
  source's: the difference of the two time values, \<open>None\<close> for NaN.
\<close>

definition sortTime :: "(string \<Rightarrow> jsdate) \<Rightarrow> normalizedComment \<Rightarrow> int option" where
  "sortTime dp a = (if truthy (nc_createdAt a) then getTime (dp (the (nc_createdAt a))) else Some 0)"

definition compareFn :: "(string \<Rightarrow> jsdate) \<Rightarrow> normalizedComment \<Rightarrow> normalizedComment \<Rightarrow> int option" where
  "compareFn dp a b =
     (case (sortTime dp a, sortTime dp b) of
        (Some aDate, Some bDate) \<Rightarrow> Some (aDate - bDate)
      | _ \<Rightarrow> None)"

fun insert_sorted :: "('a \<Rightarrow> 'a \<Rightarrow> int option) \<Rightarrow> 'a \<Rightarrow> 'a list \<Rightarrow> 'a list" where
  "insert_sorted cmp x [] = [x]"
| "insert_sorted cmp x (y # ys) =
     (if (case cmp x y of Some v \<Rightarrow> v \<le> 0 | None \<Rightarrow> True) then x # y # ys
      else y # insert_sorted cmp x ys)"

definition array_sort :: "('a \<Rightarrow> 'a \<Rightarrow> int option) \<Rightarrow> 'a list \<Rightarrow> 'a list" where
  "array_sort cmp xs = foldr (insert_sorted cmp) xs []"

record normalizeResult =
  nr_comments :: "normalizedComment list"
  nr_authorLastActivity :: "jsdate option"

definition normalizeAll ::
  "(string \<Rightarrow> jsdate) \<Rightarrow> pRView \<Rightarrow> issueComment list \<Rightarrow> inlineComment list \<Rightarrow> normalizeResult" where
  "normalizeAll dp prView issueComments inlineComments =
     (let prAuthor = pr_author prView;
          authorLastActivity = findAuthorLastActivity dp prAuthor issueComments inlineComments;
          allComments = normalizeReviews dp prView authorLastActivity
                        @ normalizeIssueComments dp issueComments prAuthor authorLastActivity
                        @ normalizeInlineComments dp inlineComments prAuthor;
          sorted = array_sort (compareFn dp) allComments
      in \<lparr> nr_comments = sorted, nr_authorLastActivity = authorLastActivity \<rparr>)"

section \<open>Vocabulary of the properties\<close>

text \<open>
  Two characters are the same letter up to case when they are equal or one is the lower-case
  form of the other; two identifiers are case variants when they agree up to case position
  by position.
\<close>

definition sameLetter :: "char \<Rightarrow> char \<Rightarrow> bool" where
  "sameLetter c d = (c = d \<or> toLowerChar c = d \<or> toLowerChar d = c)"

definition caseVariant :: "string \<Rightarrow> string \<Rightarrow> bool" where
  "caseVariant s t = list_all2 sameLetter s t"

text \<open>An entry of \<open>latestByAuthor\<close> that passed the author filters of the first loop.\<close>

definition reviewer_entry :: "string \<Rightarrow> string \<times> review \<Rightarrow> bool" where
  "reviewer_entry prAuthor e =
     (rv_author (snd e) = Some (fst e) \<and> \<not> isLikelyBot (fst e) \<and> fst e \<noteq> prAuthor)"

section \<open>A worked pull request\<close>

text \<open>
  A parser that knows three instants (with their time values in milliseconds) and gives the
  invalid date on any other string; the pull request of alice with a review by bob, a
  conversation of alice, carol and a bot, and one inline thread of dave and alice.
\<close>

definition exampleDate :: "string \<Rightarrow> jsdate" where
  "exampleDate s =
     (if s = ''2024-01-01T00:00:00Z'' then Date 1704067200000
      else if s = ''2024-01-02T00:00:00Z'' then Date 1704153600000
      else if s = ''2024-01-03T00:00:00Z'' then Date 1704240000000
      else InvalidDate)"

definition exampleReviews :: "review list" where
  "exampleReviews =
     [\<lparr> rv_author = Some ''bob'', rv_state = ''CHANGES_REQUESTED'',
        rv_submittedAt = Some ''2024-01-03T00:00:00Z'', rv_body = Some ''fix the null check'' \<rparr>,
      \<lparr> rv_author = Some ''alice'', rv_state = ''COMMENTED'',
        rv_submittedAt = Some ''2024-01-03T00:00:00Z'', rv_body = Some ''note to self'' \<rparr>]"

definition examplePR :: "review list \<Rightarrow> pRView" where
  "examplePR reviews =
     \<lparr> pr_title = ''Add cache'', pr_url = ''https://github.com/o/r/pull/7'',
       pr_author = ''alice'', pr_state = ''OPEN'', pr_createdAt = ''2024-01-01T00:00:00Z'',
       pr_updatedAt = ''2024-01-03T00:00:00Z'', pr_baseRefName = ''main'',
       pr_headRefName = ''cache'', pr_reviews = reviews \<rparr>"

definition exampleIssueComments :: "issueComment list" where
  "exampleIssueComments =
     [\<lparr> ic_user = Some ''carol'', ic_created_at = ''2024-01-01T00:00:00Z'',
        ic_body = Some ''please add a test'', ic_html_url = ''https://github.com/o/r/pull/7#c100'',
        ic_id = 100 \<rparr>,
      \<lparr> ic_user = Some ''alice'', ic_created_at = ''2024-01-02T00:00:00Z'',
        ic_body = Some ''done'', ic_html_url = ''https://github.com/o/r/pull/7#c101'',
        ic_id = 101 \<rparr>,
      \<lparr> ic_user = Some ''carol'', ic_created_at = ''2024-01-03T00:00:00Z'',
        ic_body = Some ''looks good now'', ic_html_url = ''https://github.com/o/r/pull/7#c102'',
        ic_id = 102 \<rparr>,
      \<lparr> ic_user = Some ''dependabot[bot]'', ic_created_at = ''2024-01-03T00:00:00Z'',
        ic_body = Some ''bump lodash'', ic_html_url = ''https://github.com/o/r/pull/7#c103'',
        ic_id = 103 \<rparr>]"

definition exampleMessage :: "string \<Rightarrow> string \<Rightarrow> string \<Rightarrow> string \<Rightarrow> inlineMessage" where
  "exampleMessage ident author createdAt body =
     \<lparr> im_id = ident, im_author = author, im_createdAt = createdAt, im_body = body,
       im_url = ''https://github.com/o/r/pull/7#'' @ ident \<rparr>"

definition exampleThread :: "bool \<Rightarrow> bool \<Rightarrow> inlineMessage list \<Rightarrow> inlineComment" where
  "exampleThread isResolved isOutdated comments =
     \<lparr> th_path = ''src/cache.ts'', th_line = Some 10, th_originalLine = Some 8,
       th_isResolved = isResolved, th_isOutdated = isOutdated, th_comments = comments \<rparr>"

definition exampleThreads :: "inlineComment list" where
  "exampleThreads =
     [exampleThread False False
        [exampleMessage ''m1'' ''dave'' ''2024-01-01T00:00:00Z'' ''why this pattern?'',
         exampleMessage ''m2'' ''alice'' ''2024-01-02T00:00:00Z'' ''because X'',
         exampleMessage ''m3'' ''dave'' ''2024-01-03T00:00:00Z'' ''but what about Y?'']]"

text \<open>
  The array \<open>allComments\<close> that \<open>normalizeAll\<close> builds before it sorts, and the time value
  the comparator reads from a comment (zero on NaN, where the comparator gives no order).
\<close>

definition allComments ::
  "(string \<Rightarrow> jsdate) \<Rightarrow> pRView \<Rightarrow> issueComment list \<Rightarrow> inlineComment list \<Rightarrow> normalizedComment list" where
  "allComments dp prView issueComments inlineComments =
     normalizeReviews dp prView
       (findAuthorLastActivity dp (pr_author prView) issueComments inlineComments)
     @ normalizeIssueComments dp issueComments (pr_author prView)
         (findAuthorLastActivity dp (pr_author prView) issueComments inlineComments)
     @ normalizeInlineComments dp inlineComments (pr_author prView)"

definition timeKey :: "(string \<Rightarrow> jsdate) \<Rightarrow> normalizedComment \<Rightarrow> int" where
  "timeKey dp c = (case sortTime dp c of Some t \<Rightarrow> t | None \<Rightarrow> 0)"

text \<open>
  A second pull request of alice, where she has not answered yet: a review of bob without a
  submission time, two conversation comments and one thread, out of chronological order
  across the sources.
\<close>

definition mixedReviews :: "review list" where
  "mixedReviews =
     [\<lparr> rv_author = Some ''bob'', rv_state = ''CHANGES_REQUESTED'',
        rv_submittedAt = None, rv_body = Some ''fix the null check'' \<rparr>]"

definition mixedIssueComments :: "issueComment list" where
  "mixedIssueComments =
     [\<lparr> ic_user = Some ''carol'', ic_created_at = ''2024-01-03T00:00:00Z'',
        ic_body = Some ''looks good now'', ic_html_url = ''https://github.com/o/r/pull/7#c102'',
        ic_id = 102 \<rparr>,
      \<lparr> ic_user = Some ''erin'', ic_created_at = ''2024-01-01T00:00:00Z'',
        ic_body = Some ''please add a test'', ic_html_url = ''https://github.com/o/r/pull/7#c100'',
        ic_id = 100 \<rparr>]"

definition mixedThreads :: "inlineComment list" where
  "mixedThreads =
     [exampleThread False False
        [exampleMessage ''m4'' ''dave'' ''2024-01-02T00:00:00Z'' ''rename this'']]"

text \<open>A resolved thread, and a thread whose only message has an empty body.\<close>

definition staleThread :: inlineComment where
  "staleThread =
     exampleThread True False
       [exampleMessage ''m9'' ''erin'' ''2024-01-03T00:00:00Z'' ''old remark'']"

definition emptyBodyThreads :: "inlineComment list" where
  "emptyBodyThreads =
     [exampleThread False False [exampleMessage ''m7'' ''dave'' ''2024-01-01T00:00:00Z'' []]]"

text \<open>
  Vocabulary for a thread the PR author has answered: the author's messages in the order of
  the thread, the date of the last of them, the latest of their time values, whether they
  stand in chronological order, and the reviewers' messages dated strictly after a date.
\<close>

definition authorReplies :: "string \<Rightarrow> inlineComment \<Rightarrow> inlineMessage list" where
  "authorReplies prAuthor thread = filter (\<lambda>c. im_author c = prAuthor) (th_comments thread)"

definition lastReplyDate :: "(string \<Rightarrow> jsdate) \<Rightarrow> string \<Rightarrow> inlineComment \<Rightarrow> jsdate" where
  "lastReplyDate dp prAuthor thread = dp (im_createdAt (last (authorReplies prAuthor thread)))"

definition timesOf :: "(string \<Rightarrow> jsdate) \<Rightarrow> inlineMessage list \<Rightarrow> int list" where
  "timesOf dp ms = concat (map (\<lambda>m. case dp (im_createdAt m) of Date x \<Rightarrow> [x] | InvalidDate \<Rightarrow> []) ms)"

definition latestReplyDate :: "(string \<Rightarrow> jsdate) \<Rightarrow> string \<Rightarrow> inlineComment \<Rightarrow> jsdate" where
  "latestReplyDate dp prAuthor thread =
     (case timesOf dp (authorReplies prAuthor thread) of
        [] \<Rightarrow> InvalidDate
      | x # xs \<Rightarrow> Date (fold max xs x))"

definition chronological :: "(string \<Rightarrow> jsdate) \<Rightarrow> inlineMessage list \<Rightarrow> bool" where
  "chronological dp ms =
     (list_all (\<lambda>m. dp (im_createdAt m) \<noteq> InvalidDate) ms \<and> sorted (timesOf dp ms))"

definition candidatesAfter ::
  "(string \<Rightarrow> jsdate) \<Rightarrow> string \<Rightarrow> inlineComment \<Rightarrow> jsdate \<Rightarrow> inlineMessage list" where
  "candidatesAfter dp prAuthor thread d =
     filter (\<lambda>c. \<not> isLikelyBot (im_author c) \<and> im_author c \<noteq> prAuthor
                 \<and> date_gt (dp (im_createdAt c)) d)
       (th_comments thread)"

text \<open>
  Vocabulary for the verdicts of one author: a verdict survives the filters of the first loop;
  \<open>verdictsOf\<close> lists the surviving verdicts of an author in the order of the input; a new
  verdict replaces the kept one when both carry a submission time and the new one is strictly
  later; \<open>keptVerdict\<close> starts from the first verdict of a list and lets each next one
  challenge it. \<open>verdictTime\<close> is the time value of a verdict, \<open>None\<close> where the submission
  time is missing or does not parse.
\<close>

definition survives :: "(string \<Rightarrow> jsdate) \<Rightarrow> string \<Rightarrow> jsdate option \<Rightarrow> review \<Rightarrow> bool" where
  "survives dp prAuthor authorLastActivity review =
     (case rv_author review of
        None \<Rightarrow> False
      | Some author \<Rightarrow>
          \<not> isLikelyBot author \<and> author \<noteq> prAuthor
          \<and> \<not> (authorLastActivity \<noteq> None \<and> truthy (rv_submittedAt review)
                \<and> date_le (dp (the (rv_submittedAt review))) (the authorLastActivity)))"

definition verdictsOf ::
  "(string \<Rightarrow> jsdate) \<Rightarrow> string \<Rightarrow> jsdate option \<Rightarrow> string \<Rightarrow> review list \<Rightarrow> review list" where
  "verdictsOf dp prAuthor authorLastActivity author reviews =
     filter (\<lambda>r. rv_author r = Some author \<and> survives dp prAuthor authorLastActivity r) reviews"

definition replaces :: "(string \<Rightarrow> jsdate) \<Rightarrow> review \<Rightarrow> review \<Rightarrow> bool" where
  "replaces dp review existing =
     (truthy (rv_submittedAt review) \<and> truthy (rv_submittedAt existing)
      \<and> date_gt (dp (the (rv_submittedAt review))) (dp (the (rv_submittedAt existing))))"

definition challenge :: "(string \<Rightarrow> jsdate) \<Rightarrow> review \<Rightarrow> review \<Rightarrow> review" where
  "challenge dp existing review = (if replaces dp review existing then review else existing)"

definition verdictTime :: "(string \<Rightarrow> jsdate) \<Rightarrow> review \<Rightarrow> int option" where
  "verdictTime dp r =
     (if truthy (rv_submittedAt r) then getTime (dp (the (rv_submittedAt r))) else None)"

definition keptVerdict :: "(string \<Rightarrow> jsdate) \<Rightarrow> review list \<Rightarrow> review option" where
  "keptVerdict dp vs = (case vs of [] \<Rightarrow> None | v # rest \<Rightarrow> Some (foldl (challenge dp) v rest))"

text \<open>
  Two verdicts of bob where the first one has no submission time, and a re-review of bob.
\<close>

definition untimedFirstReviews :: "review list" where
  "untimedFirstReviews =
     [\<lparr> rv_author = Some ''bob'', rv_state = ''COMMENTED'',
        rv_submittedAt = None, rv_body = Some ''first pass'' \<rparr>,
      \<lparr> rv_author = Some ''bob'', rv_state = ''COMMENTED'',
        rv_submittedAt = Some ''2024-01-01T00:00:00Z'', rv_body = Some ''second pass'' \<rparr>]"

definition rereviewReviews :: "review list" where
  "rereviewReviews =
     [\<lparr> rv_author = Some ''bob'', rv_state = ''CHANGES_REQUESTED'',
        rv_submittedAt = Some ''2024-01-01T00:00:00Z'', rv_body = Some ''early remark'' \<rparr>,
      \<lparr> rv_author = Some ''bob'', rv_state = ''COMMENTED'',
        rv_submittedAt = Some ''2024-01-03T00:00:00Z'', rv_body = Some ''later remark'' \<rparr>]"

section \<open>Lemmas on the building blocks\<close>

lemma mset_insert_sorted: "mset (insert_sorted cmp x ys) = add_mset x (mset ys)"
  by (induction ys) auto

lemma mset_array_sort: "mset (array_sort cmp xs) = mset xs"
  by (induction xs) (simp_all add: array_sort_def mset_insert_sorted)

lemma set_array_sort: "set (array_sort cmp xs) = set xs"
  using mset_array_sort [of cmp xs] by (metis set_mset_mset)

lemma set_map_filter: "set (List.map_filter f xs) = {y. \<exists>x \<in> set xs. f x = Some y}"
  by (induction xs) (auto split: option.splits)

lemma set_map_set: "set (map_set m k v) \<subseteq> insert (k, v) (set m)"
  by (induction m k v rule: map_set.induct) auto

lemma reviewStep_entries:
  assumes "\<forall>e \<in> set m. reviewer_entry prAuthor e"
  shows "\<forall>e \<in> set (reviewStep dp prAuthor ala m r). reviewer_entry prAuthor e"
proof (cases "rv_author r")
  case None
  then show ?thesis using assms by (simp add: reviewStep_def)
next
  case (Some a)
  show ?thesis
  proof (cases "reviewStep dp prAuthor ala m r = m")
    case True
    then show ?thesis using assms by simp
  next
    case False
    then have 1: "reviewStep dp prAuthor ala m r = map_set m a r"
      and 2: "\<not> isLikelyBot a" and 3: "a \<noteq> prAuthor"
      using Some by (auto simp: reviewStep_def split: if_splits option.splits)
    have "reviewer_entry prAuthor (a, r)"
      using Some 2 3 by (simp add: reviewer_entry_def)
    then show ?thesis
      using assms set_map_set [of m a r] unfolding 1 by auto
  qed
qed

lemma foldl_reviewStep_entries:
  "\<forall>e \<in> set m. reviewer_entry prAuthor e \<Longrightarrow>
   \<forall>e \<in> set (foldl (reviewStep dp prAuthor ala) m rs). reviewer_entry prAuthor e"
proof (induction rs arbitrary: m)
  case Nil
  then show ?case by simp
next
  case (Cons r rs)
  have "\<forall>e \<in> set (reviewStep dp prAuthor ala m r). reviewer_entry prAuthor e"
    using Cons.prems by (rule reviewStep_entries)
  from Cons.IH [OF this] show ?case by simp
qed

lemma latestReviews_entries:
  "e \<in> set (latestReviews dp prAuthor ala rs) \<Longrightarrow> reviewer_entry prAuthor e"
  using foldl_reviewStep_entries [of "[]" prAuthor dp ala rs] by (simp add: latestReviews_def)

lemma emitReview_fields:
  "emitReview prView e = Some c \<Longrightarrow>
   nc_author c = fst e \<and> nc_isBot c = False \<and> nc_kind c = review_body"
  by (auto simp: emitReview_def Let_def split: if_splits)

lemma normalizeReviews_elem:
  assumes "c \<in> set (normalizeReviews dp prView ala)"
  shows "\<not> isLikelyBot (nc_author c) \<and> nc_author c \<noteq> pr_author prView
         \<and> \<not> nc_isBot c \<and> nc_kind c = review_body"
proof -
  from assms obtain e
    where e: "e \<in> set (latestReviews dp (pr_author prView) ala (pr_reviews prView))"
      and c: "emitReview prView e = Some c"
    by (auto simp: normalizeReviews_def set_map_filter)
  from latestReviews_entries [OF e] emitReview_fields [OF c] show ?thesis
    by (simp add: reviewer_entry_def)
qed

lemma normalizeIssueComment_elem:
  "normalizeIssueComment dp prAuthor ala x = Some c \<Longrightarrow>
   \<not> isLikelyBot (nc_author c) \<and> nc_author c \<noteq> prAuthor \<and> \<not> nc_isBot c \<and> nc_kind c = pr_comment"
  by (auto simp: normalizeIssueComment_def Let_def split: option.splits if_splits)

lemma normalizeIssueComments_elem:
  "c \<in> set (normalizeIssueComments dp ics prAuthor ala) \<Longrightarrow>
   \<not> isLikelyBot (nc_author c) \<and> nc_author c \<noteq> prAuthor \<and> \<not> nc_isBot c \<and> nc_kind c = pr_comment"
  by (auto simp: normalizeIssueComments_def set_map_filter dest: normalizeIssueComment_elem)

lemma last_filter_in:
  "filter P xs \<noteq> [] \<Longrightarrow> last (filter P xs) \<in> set xs \<and> P (last (filter P xs))"
  using last_in_set [of "filter P xs"] by auto

lemma normalizeThread_cases:
  "normalizeThread dp prAuthor t = [] \<or>
   (\<exists>m \<in> set (th_comments t).
      isReviewerComment prAuthor m \<and> normalizeThread dp prAuthor t = [inlineResult t m])"
proof -
  let ?rc = "filter (isReviewerComment prAuthor) (th_comments t)"
  let ?d = "dp (im_createdAt (last (filter (\<lambda>c. im_author c = prAuthor) (th_comments t))))"
  let ?nc = "filter (\<lambda>c. date_gt (dp (im_createdAt c)) ?d) ?rc"
  have a: "?rc \<noteq> [] \<Longrightarrow> last ?rc \<in> set (th_comments t) \<and> isReviewerComment prAuthor (last ?rc)"
    by (rule last_filter_in)
  have b: "?nc \<noteq> [] \<Longrightarrow> last ?nc \<in> set (th_comments t) \<and> isReviewerComment prAuthor (last ?nc)"
    using last_filter_in [of "\<lambda>c. date_gt (dp (im_createdAt c)) ?d" ?rc] by auto
  show ?thesis
    using a b by (auto simp: normalizeThread_def Let_def)
qed

lemma normalizeInlineComments_elem:
  assumes "c \<in> set (normalizeInlineComments dp ths prAuthor)"
  shows "\<not> isLikelyBot (nc_author c) \<and> nc_author c \<noteq> prAuthor
         \<and> \<not> nc_isBot c \<and> nc_kind c = inline_comment"
proof -
  from assms obtain t where "t \<in> set ths" and "c \<in> set (normalizeThread dp prAuthor t)"
    by (auto simp: normalizeInlineComments_def)
  with normalizeThread_cases [of dp prAuthor t]
  obtain m where "isReviewerComment prAuthor m" and "c = inlineResult t m" by auto
  then show ?thesis
    by (auto simp: isReviewerComment_def inlineResult_def split: if_splits)
qed

lemma set_normalizeAll:
  "set (nr_comments (normalizeAll dp prView ics ths)) =
     set (normalizeReviews dp prView (findAuthorLastActivity dp (pr_author prView) ics ths))
     \<union> set (normalizeIssueComments dp ics (pr_author prView)
              (findAuthorLastActivity dp (pr_author prView) ics ths))
     \<union> set (normalizeInlineComments dp ths (pr_author prView))"
  by (simp add: normalizeAll_def Let_def set_array_sort Un_assoc)

lemma normalizeAll_elem:
  assumes "c \<in> set (nr_comments (normalizeAll dp prView ics ths))"
  shows "\<not> isLikelyBot (nc_author c) \<and> nc_author c \<noteq> pr_author prView \<and> \<not> nc_isBot c"
  using assms normalizeReviews_elem normalizeIssueComments_elem normalizeInlineComments_elem
  unfolding set_normalizeAll by blast

lemma example_output_authors:
  "map nc_author
     (nr_comments (normalizeAll exampleDate (examplePR exampleReviews) exampleIssueComments
        exampleThreads))
   = [''bob'', ''carol'', ''dave'']"
  by code_simp

section \<open>Invariants of the output\<close>

text \<open>
  C6. For every input, no Normalized Comment in the output of \<open>normalizeAll\<close> has the PR
  author as its author, whichever of the three sources it comes from.
\<close>

theorem self_comments_never_surfaced:
  "\<forall>c \<in> set (nr_comments (normalizeAll dp prView issueComments inlineComments)).
     nc_author c \<noteq> pr_author prView"
  using normalizeAll_elem by blast

theorem self_comments_never_surfaced_witness:
  "map nc_author
     (nr_comments (normalizeAll exampleDate (examplePR exampleReviews) exampleIssueComments
        exampleThreads)) = [''bob'', ''carol'', ''dave'']
   \<and> nc_author (last (nr_comments (normalizeAll exampleDate (examplePR exampleReviews)
                     exampleIssueComments exampleThreads)))
       \<noteq> pr_author (examplePR exampleReviews)"
proof -
  let ?out = "nr_comments (normalizeAll exampleDate (examplePR exampleReviews)
                exampleIssueComments exampleThreads)"
  have "?out \<noteq> []"
    using example_output_authors by auto
  then have "last ?out \<in> set ?out"
    by simp
  then have "nc_author (last ?out) \<noteq> pr_author (examplePR exampleReviews)"
    using self_comments_never_surfaced [of exampleDate "examplePR exampleReviews"
        exampleIssueComments exampleThreads]
    by blast
  then show ?thesis
    using example_output_authors by simp
qed

text \<open>
  C7. For every input, no Normalized Comment in the output of \<open>normalizeAll\<close> has an author
  for which \<open>isLikelyBot\<close> returns true.
\<close>

theorem bot_authors_never_surfaced:
  "\<forall>c \<in> set (nr_comments (normalizeAll dp prView issueComments inlineComments)).
     \<not> isLikelyBot (nc_author c)"
  using normalizeAll_elem by blast

theorem bot_authors_never_surfaced_witness:
  "map nc_author
     (nr_comments (normalizeAll exampleDate (examplePR exampleReviews) exampleIssueComments
        exampleThreads)) = [''bob'', ''carol'', ''dave'']
   \<and> isLikelyBot ''dependabot[bot]''
   \<and> \<not> isLikelyBot (nc_author (hd (nr_comments (normalizeAll exampleDate
           (examplePR exampleReviews) exampleIssueComments exampleThreads))))"
proof -
  let ?out = "nr_comments (normalizeAll exampleDate (examplePR exampleReviews)
                exampleIssueComments exampleThreads)"
  have "?out \<noteq> []"
    using example_output_authors by auto
  then have "hd ?out \<in> set ?out"
    by simp
  then have "\<not> isLikelyBot (nc_author (hd ?out))"
    using bot_authors_never_surfaced [of exampleDate "examplePR exampleReviews"
        exampleIssueComments exampleThreads]
    by blast
  moreover have "isLikelyBot ''dependabot[bot]''"
    by code_simp
  ultimately show ?thesis
    using example_output_authors by simp
qed

text \<open>
  C10. For every input, every Normalized Comment produced by \<open>normalizeAll\<close> has its
  \<open>isBot\<close> field equal to false: the flag is never true in any output of the pipeline.
\<close>

theorem isBot_always_false:
  "\<forall>c \<in> set (nr_comments (normalizeAll dp prView issueComments inlineComments)).
     nc_isBot c = False"
  using normalizeAll_elem by blast

theorem isBot_always_false_witness:
  "length (nr_comments (normalizeAll exampleDate (examplePR exampleReviews) exampleIssueComments
        exampleThreads)) = 3
   \<and> nc_isBot (nr_comments (normalizeAll exampleDate (examplePR exampleReviews)
                 exampleIssueComments exampleThreads) ! 1) = False"
proof -
  let ?out = "nr_comments (normalizeAll exampleDate (examplePR exampleReviews)
                exampleIssueComments exampleThreads)"
  have len: "length ?out = 3"
    by code_simp
  have "?out ! 1 \<in> set ?out"
    by (rule nth_mem) (simp add: len)
  then have "nc_isBot (?out ! 1) = False"
    using isBot_always_false [of exampleDate "examplePR exampleReviews"
        exampleIssueComments exampleThreads]
    by blast
  then show ?thesis
    using len by simp
qed

section \<open>Resolved and outdated threads\<close>

lemma normalizeAll_comments:
  "nr_comments (normalizeAll dp prView ics ths) = array_sort (compareFn dp) (allComments dp prView ics ths)"
  by (simp add: normalizeAll_def allComments_def Let_def)

lemma normalizeThread_suppressed:
  "th_isResolved t \<or> th_isOutdated t \<Longrightarrow> normalizeThread dp prAuthor t = []"
  by (auto simp: normalizeThread_def)

text \<open>
  C8. An inline thread whose resolved flag is true, or whose outdated flag is true,
  contributes no Normalized Comment to the output of \<open>normalizeAll\<close>, whatever its messages:
  the thread alone gives nothing, the inline normalizer gives what it gives without the
  thread, and the output holds the reviews, the conversation comments and the inline
  comments of the other threads only.
\<close>

theorem resolved_or_outdated_thread_contributes_nothing:
  assumes "th_isResolved t \<or> th_isOutdated t"
  shows "normalizeThread dp (pr_author prView) t = []
    \<and> normalizeInlineComments dp (before @ t # after) (pr_author prView)
        = normalizeInlineComments dp (before @ after) (pr_author prView)
    \<and> mset (nr_comments (normalizeAll dp prView issueComments (before @ t # after)))
        = mset (normalizeReviews dp prView
                  (findAuthorLastActivity dp (pr_author prView) issueComments (before @ t # after)))
          + mset (normalizeIssueComments dp issueComments (pr_author prView)
                  (findAuthorLastActivity dp (pr_author prView) issueComments (before @ t # after)))
          + mset (normalizeInlineComments dp (before @ after) (pr_author prView))"
proof -
  have 1: "normalizeThread dp (pr_author prView) t = []"
    using assms by (rule normalizeThread_suppressed)
  have 2: "normalizeInlineComments dp (before @ t # after) (pr_author prView)
        = normalizeInlineComments dp (before @ after) (pr_author prView)"
    by (simp add: normalizeInlineComments_def 1)
  have 3: "mset (nr_comments (normalizeAll dp prView issueComments (before @ t # after)))
        = mset (allComments dp prView issueComments (before @ t # after))"
    by (simp add: normalizeAll_comments mset_array_sort)
  show ?thesis
    unfolding 3 by (simp add: allComments_def 1 2)
qed

theorem resolved_or_outdated_thread_contributes_nothing_witness:
  "th_isResolved staleThread
   \<and> map im_author (th_comments staleThread) = [''erin'']
   \<and> normalizeThread exampleDate (pr_author (examplePR exampleReviews)) staleThread = []
   \<and> normalizeInlineComments exampleDate (staleThread # exampleThreads)
         (pr_author (examplePR exampleReviews))
       = normalizeInlineComments exampleDate exampleThreads (pr_author (examplePR exampleReviews))"
proof -
  have r: "th_isResolved staleThread"
    by code_simp
  have m: "map im_author (th_comments staleThread) = [''erin'']"
    by code_simp
  show ?thesis
    using r m
      resolved_or_outdated_thread_contributes_nothing [of staleThread exampleDate
        "examplePR exampleReviews" "[]" exampleThreads exampleIssueComments]
    by simp
qed

section \<open>Bodies\<close>

lemma trim_Nil: "trim [] = []" by (simp add: trim_def)

lemma emitReview_body: "emitReview prView e = Some c \<Longrightarrow> nc_body c \<noteq> []"
  by (auto simp: emitReview_def Let_def split: if_splits elim: truthy.elims)

lemma normalizeIssueComment_body: "normalizeIssueComment dp a ala x = Some c \<Longrightarrow> nc_body c \<noteq> []"
  by (auto simp: normalizeIssueComment_def Let_def trim_Nil split: option.splits if_splits)

lemma review_and_conversation_bodies_nonempty:
  assumes "c \<in> set (nr_comments (normalizeAll dp prView ics ths))" and "nc_kind c \<noteq> inline_comment"
  shows "nc_body c \<noteq> []"
proof -
  let ?b = "findAuthorLastActivity dp (pr_author prView) ics ths"
  from assms normalizeInlineComments_elem
  have "c \<in> set (normalizeReviews dp prView ?b) \<or> c \<in> set (normalizeIssueComments dp ics (pr_author prView) ?b)"
    unfolding set_normalizeAll by blast
  then show ?thesis
    by (auto simp: normalizeReviews_def normalizeIssueComments_def set_map_filter
        dest: emitReview_body normalizeIssueComment_body)
qed

text \<open>
  C1. Every Normalized Comment in the output of \<open>normalizeAll\<close> has a non-empty body. The
  review and conversation normalizers keep it (lemma above); the inline normalizer copies the
  body of the message it picks without looking at it, so the thread whose only message has
  the empty body is surfaced with the empty body.
\<close>

theorem inline_empty_body_is_surfaced:
  "map nc_body (nr_comments (normalizeAll exampleDate (examplePR []) [] emptyBodyThreads)) = [[]]"
  by code_simp



section \<open>The bot predicate\<close>

lemma of_char_lower: "of_char (toLowerChar c) = (let n = (of_char c :: nat) in if (65 \<le> n \<and> n \<le> 90) \<or> (192 \<le> n \<and> n \<le> 222 \<and> n \<noteq> 215) then n + 32 else n)"
  by (simp add: toLowerChar_def Let_def)

lemma toLowerChar_idem: "toLowerChar (toLowerChar c) = toLowerChar c"
proof -
  have "(of_char (toLowerChar (toLowerChar c)) :: nat) = of_char (toLowerChar c)"
    unfolding of_char_lower [of "toLowerChar c"] unfolding of_char_lower [of c]
    by (simp add: Let_def)
  then show ?thesis by simp
qed

lemma sameLetter_lower: "sameLetter c d \<Longrightarrow> toLowerChar c = toLowerChar d"
  unfolding sameLetter_def using toLowerChar_idem by metis

lemma caseVariant_lower: "caseVariant s t \<Longrightarrow> toLowerCase s = toLowerCase t"
  unfolding caseVariant_def toLowerCase_def
  by (induction s t rule: list_all2_induct) (simp_all add: sameLetter_lower)

lemma isLikelyBot_lower: "toLowerCase s = toLowerCase t \<Longrightarrow> isLikelyBot s = isLikelyBot t"
  by (simp add: isLikelyBot_def endsWithBot_def)

lemma endsWith_suffix: "endsWith s suf = suffix suf s"
proof
  assume "endsWith s suf"
  then have "s = take (length s - length suf) s @ suf"
    by (metis append_take_drop_id endsWith_def)
  then show "suffix suf s" by (metis suffixI)
next
  assume "suffix suf s"
  then obtain p where "s = p @ suf" by (auto simp: suffix_def)
  then show "endsWith s suf" by (simp add: endsWith_def)
qed

lemma includes_str_sublist: "includes_str s p = sublist p s"
proof (induction s)
  case Nil
  then show ?case by simp
next
  case (Cons c cs)
  have "take (length p) (c # cs) = p \<longleftrightarrow> prefix p (c # cs)"
    by (metis append_eq_conv_conj prefix_def)
  then show ?case
    using Cons by (cases p) (auto simp: sublist_Cons_right)
qed

lemma includesAny_iff: "includesAny s ps = (\<exists>p \<in> set ps. sublist p s)"
  by (induction ps) (simp_all add: includes_str_sublist)

lemma isLikelyBot_iff:
  "isLikelyBot s = (suffix ''bot'' (toLowerCase s) \<or> (\<exists>p \<in> set BOT_AUTHOR_PATTERNS. sublist p (toLowerCase s)))"
  by (simp add: isLikelyBot_def endsWithBot_def endsWith_suffix includesAny_iff)

lemma patterns_lower: "p \<in> set BOT_AUTHOR_PATTERNS \<Longrightarrow> toLowerCase p = p"
  unfolding BOT_AUTHOR_PATTERNS_def
  by (auto simp: toLowerCase_def toLowerChar_def)

lemma bot_lower: "toLowerCase ''bot'' = ''bot''"
  by (simp add: toLowerCase_def toLowerChar_def)

lemma suffix_lower: "suffix p s \<Longrightarrow> suffix (toLowerCase p) (toLowerCase s)"
  unfolding toLowerCase_def by (rule map_mono_suffix)

lemma sublist_lower: "sublist p s \<Longrightarrow> sublist (toLowerCase p) (toLowerCase s)"
  unfolding toLowerCase_def by (rule map_mono_sublist)

text \<open>
  C9. \<open>isLikelyBot\<close> is a total function of the author identifier alone; it gives the same
  result on an identifier and on any case variant of it; it is true whenever the identifier
  ends with \<open>bot\<close> or contains one of the patterns of \<open>BOT_AUTHOR_PATTERNS\<close>, among them
  \<open>[bot]\<close>, \<open>-bot\<close> and \<open>bot-\<close>; and it is true exactly when the lower-cased identifier
  ends with \<open>bot\<close> or contains a pattern.
\<close>

theorem isLikelyBot_contract:
  "(caseVariant s t \<longrightarrow> isLikelyBot s = isLikelyBot t)
   \<and> (suffix ''bot'' s \<longrightarrow> isLikelyBot s)
   \<and> (\<forall>p \<in> set BOT_AUTHOR_PATTERNS. sublist p s \<longrightarrow> isLikelyBot s)
   \<and> {''[bot]'', ''-bot'', ''bot-''} \<subseteq> set BOT_AUTHOR_PATTERNS
   \<and> isLikelyBot s = (suffix ''bot'' (toLowerCase s) \<or> (\<exists>p \<in> set BOT_AUTHOR_PATTERNS. sublist p (toLowerCase s)))"
proof (intro conjI impI ballI)
  assume "caseVariant s t"
  then show "isLikelyBot s = isLikelyBot t"
    by (intro isLikelyBot_lower caseVariant_lower)
next
  assume "suffix ''bot'' s"
  from suffix_lower [OF this] show "isLikelyBot s"
    unfolding bot_lower isLikelyBot_iff by simp
next
  fix p assume p: "p \<in> set BOT_AUTHOR_PATTERNS" and "sublist p s"
  from sublist_lower [OF this(2)] have "sublist p (toLowerCase s)"
    using patterns_lower [OF p] by simp
  then show "isLikelyBot s"
    unfolding isLikelyBot_iff using p by blast
next
  show "{''[bot]'', ''-bot'', ''bot-''} \<subseteq> set BOT_AUTHOR_PATTERNS"
    by (simp add: BOT_AUTHOR_PATTERNS_def)
next
  show "isLikelyBot s = (suffix ''bot'' (toLowerCase s) \<or> (\<exists>p \<in> set BOT_AUTHOR_PATTERNS. sublist p (toLowerCase s)))"
    by (rule isLikelyBot_iff)
qed

theorem isLikelyBot_contract_witness:
  "caseVariant ''my-bot'' ''My-BOT''
   \<and> suffix ''bot'' ''my-bot''
   \<and> ''-bot'' \<in> set BOT_AUTHOR_PATTERNS
   \<and> sublist ''-bot'' ''my-bot''
   \<and> isLikelyBot ''my-bot''
   \<and> isLikelyBot ''My-BOT''"
proof -
  have v: "caseVariant ''my-bot'' ''My-BOT''"
    by code_simp
  have e: "suffix ''bot'' ''my-bot''"
    by code_simp
  have p: "''-bot'' \<in> set BOT_AUTHOR_PATTERNS"
    by code_simp
  have i: "sublist ''-bot'' ''my-bot''"
    by code_simp
  show ?thesis
    using v e p i isLikelyBot_contract [of "''my-bot''" "''My-BOT''"]
    by blast
qed

section \<open>Order of the output\<close>

lemma insert_sorted_insort:
  assumes "sortTime dp x \<noteq> None" and "\<forall>y \<in> set ys. sortTime dp y \<noteq> None"
  shows "insert_sorted (compareFn dp) x ys = insort_key (timeKey dp) x ys"
  using assms by (induction ys) (auto simp: compareFn_def timeKey_def)

lemma array_sort_sort_key:
  "\<forall>x \<in> set xs. sortTime dp x \<noteq> None \<Longrightarrow> array_sort (compareFn dp) xs = sort_key (timeKey dp) xs"
proof (induction xs)
  case Nil
  then show ?case by (simp add: array_sort_def)
next
  case (Cons x xs)
  then have ih: "array_sort (compareFn dp) xs = sort_key (timeKey dp) xs" by simp
  have "array_sort (compareFn dp) (x # xs) = insert_sorted (compareFn dp) x (sort_key (timeKey dp) xs)"
    using ih by (simp add: array_sort_def)
  also have "\<dots> = insort_key (timeKey dp) x (sort_key (timeKey dp) xs)"
    using Cons.prems by (intro insert_sorted_insort) simp_all
  finally show ?case by simp
qed

lemma timeKey_absent: "\<not> truthy (nc_createdAt c) \<Longrightarrow> timeKey dp c = 0"
  by (simp add: timeKey_def sortTime_def)

text \<open>
  C4. The comments returned by \<open>normalizeAll\<close> are sorted by timestamp, ascending; a comment
  without a timestamp sorts with the time value zero, the epoch; and the sort is the stable
  sort of the concatenation of the three normalizers' outputs: comments of equal time keep
  the order they have there. The comparator gives an order only where every timestamp that
  is present parses to a date, which is the hypothesis. Where no time value is negative (no
  comment is dated before 1970), the comments without a timestamp have the least time value.
\<close>

theorem output_sorted_by_timestamp:
  assumes "\<forall>c \<in> set (nr_comments (normalizeAll dp prView issueComments inlineComments)).
             sortTime dp c \<noteq> None"
  shows "sorted (map (timeKey dp) (nr_comments (normalizeAll dp prView issueComments inlineComments)))
    \<and> nr_comments (normalizeAll dp prView issueComments inlineComments)
        = sort_key (timeKey dp) (allComments dp prView issueComments inlineComments)
    \<and> (\<forall>k. filter (\<lambda>c. timeKey dp c = k) (nr_comments (normalizeAll dp prView issueComments inlineComments))
           = filter (\<lambda>c. timeKey dp c = k) (allComments dp prView issueComments inlineComments))
    \<and> (\<forall>c \<in> set (nr_comments (normalizeAll dp prView issueComments inlineComments)).
           \<not> truthy (nc_createdAt c) \<longrightarrow> timeKey dp c = 0)
    \<and> ((\<forall>d \<in> set (nr_comments (normalizeAll dp prView issueComments inlineComments)).
            0 \<le> timeKey dp d) \<longrightarrow>
         (\<forall>c \<in> set (nr_comments (normalizeAll dp prView issueComments inlineComments)).
            \<not> truthy (nc_createdAt c) \<longrightarrow>
            (\<forall>d \<in> set (nr_comments (normalizeAll dp prView issueComments inlineComments)).
               timeKey dp c \<le> timeKey dp d)))"
proof -
  let ?all = "allComments dp prView issueComments inlineComments"
  have "\<forall>c \<in> set ?all. sortTime dp c \<noteq> None"
    using assms by (simp add: normalizeAll_comments set_array_sort)
  then have eq: "nr_comments (normalizeAll dp prView issueComments inlineComments) = sort_key (timeKey dp) ?all"
    unfolding normalizeAll_comments by (rule array_sort_sort_key)
  show ?thesis
    unfolding eq by (simp add: sort_key_stable timeKey_absent)
qed

theorem output_sorted_by_timestamp_witness:
  "map nc_author (allComments exampleDate (examplePR mixedReviews) mixedIssueComments mixedThreads)
     = [''bob'', ''carol'', ''erin'', ''dave'']
   \<and> map nc_author (nr_comments (normalizeAll exampleDate (examplePR mixedReviews)
                       mixedIssueComments mixedThreads))
     = [''bob'', ''erin'', ''dave'', ''carol'']
   \<and> map (timeKey exampleDate) (nr_comments (normalizeAll exampleDate (examplePR mixedReviews)
                       mixedIssueComments mixedThreads))
     = [0, 1704067200000, 1704153600000, 1704240000000]
   \<and> sorted (map (timeKey exampleDate) (nr_comments (normalizeAll exampleDate
                (examplePR mixedReviews) mixedIssueComments mixedThreads)))"
proof -
  have h: "\<forall>c \<in> set (nr_comments (normalizeAll exampleDate (examplePR mixedReviews)
                         mixedIssueComments mixedThreads)).
             sortTime exampleDate c \<noteq> None"
    by code_simp
  have a: "map nc_author (allComments exampleDate (examplePR mixedReviews) mixedIssueComments
             mixedThreads) = [''bob'', ''carol'', ''erin'', ''dave'']"
    by code_simp
  have b: "map nc_author (nr_comments (normalizeAll exampleDate (examplePR mixedReviews)
             mixedIssueComments mixedThreads)) = [''bob'', ''erin'', ''dave'', ''carol'']"
    by code_simp
  have c: "map (timeKey exampleDate) (nr_comments (normalizeAll exampleDate
             (examplePR mixedReviews) mixedIssueComments mixedThreads))
           = [0, 1704067200000, 1704153600000, 1704240000000]"
    by code_simp
  have d: "sorted (map (timeKey exampleDate) (nr_comments (normalizeAll exampleDate
                (examplePR mixedReviews) mixedIssueComments mixedThreads)))"
    using output_sorted_by_timestamp [OF h] by (rule conjunct1)
  show ?thesis
    using a b c d by (intro conjI)
qed

section \<open>The activity boundary and the conversation\<close>

lemma bumpActivity_same: "acc = None \<or> acc = Some d \<Longrightarrow> bumpActivity acc d = Some d"
  by (cases d) auto

lemma foldl_issueActivity_single:
  assumes "\<forall>c \<in> set xs. ic_user c = Some a \<and> ic_created_at c \<noteq> [] \<longrightarrow> dp (ic_created_at c) = d"
    and "acc = None \<or> acc = Some d"
  shows "foldl (issueActivity dp a) acc xs =
           (if acc = None \<and> \<not> (\<exists>c \<in> set xs. ic_user c = Some a \<and> ic_created_at c \<noteq> []) then None
            else Some d)"
  using assms
proof (induction xs arbitrary: acc)
  case Nil
  then show ?case by auto
next
  case (Cons x xs)
  show ?case
  proof (cases "ic_user x = Some a \<and> ic_created_at x \<noteq> []")
    case True
    then have "issueActivity dp a acc x = Some d"
      using Cons.prems by (simp add: issueActivity_def bumpActivity_same)
    then show ?thesis
      using Cons.IH [of "Some d"] Cons.prems True by simp
  next
    case False
    then have "issueActivity dp a acc x = acc"
      by (auto simp: issueActivity_def)
    then show ?thesis
      using Cons.IH [of acc] Cons.prems False by auto
  qed
qed

lemma foldl_messageActivity_none:
  "\<forall>m \<in> set ms. im_author m \<noteq> a \<Longrightarrow> foldl (messageActivity dp a) acc ms = acc"
  by (induction ms arbitrary: acc) (simp_all add: messageActivity_def)

lemma foldl_threads_none:
  "\<forall>th \<in> set ths. \<forall>m \<in> set (th_comments th). im_author m \<noteq> a \<Longrightarrow>
   foldl (\<lambda>lastActivity thread. foldl (messageActivity dp a) lastActivity (th_comments thread)) acc ths = acc"
  by (induction ths arbitrary: acc) (simp_all add: foldl_messageActivity_none)

lemma single_reply_boundary:
  assumes "reply \<in> set ics" and "ic_user reply = Some a" and "ic_created_at reply \<noteq> []"
    and "\<forall>c \<in> set ics. ic_user c = Some a \<and> ic_created_at c \<noteq> [] \<longrightarrow> dp (ic_created_at c) = Date T2"
    and "\<forall>th \<in> set ths. \<forall>m \<in> set (th_comments th). im_author m \<noteq> a"
  shows "findAuthorLastActivity dp a ics ths = Some (Date T2)"
proof -
  have "foldl (issueActivity dp a) None ics = Some (Date T2)"
    using foldl_issueActivity_single [OF assms(4), of None] assms(1,2,3) by auto
  then show ?thesis
    using foldl_threads_none [OF assms(5)] by (simp add: findAuthorLastActivity_def)
qed

lemma normalizeIssueComment_createdAt:
  "normalizeIssueComment dp a ala y = Some c \<Longrightarrow>
   nc_createdAt c = Some (ic_created_at y)
   \<and> \<not> (ala \<noteq> None \<and> ic_created_at y \<noteq> [] \<and> date_le (dp (ic_created_at y)) (the ala))"
  by (auto simp: normalizeIssueComment_def Let_def split: option.splits if_splits)

lemma pr_comment_origin:
  assumes "c \<in> set (nr_comments (normalizeAll dp prView ics ths))" and "nc_kind c = pr_comment"
  shows "\<exists>y \<in> set ics. normalizeIssueComment dp (pr_author prView)
            (findAuthorLastActivity dp (pr_author prView) ics ths) y = Some c"
proof -
  let ?b = "findAuthorLastActivity dp (pr_author prView) ics ths"
  have "c \<in> set (normalizeIssueComments dp ics (pr_author prView) ?b)"
    using assms normalizeReviews_elem [of c dp prView ?b]
      normalizeInlineComments_elem [of c dp ths "pr_author prView"]
    unfolding set_normalizeAll by auto
  then show ?thesis
    by (simp add: normalizeIssueComments_def set_map_filter)
qed

lemma issue_comment_surfaced:
  assumes "x \<in> set ics" and "normalizeIssueComment dp (pr_author prView)
            (findAuthorLastActivity dp (pr_author prView) ics ths) x = Some c"
  shows "c \<in> set (nr_comments (normalizeAll dp prView ics ths))"
  using assms unfolding set_normalizeAll
  by (auto simp: normalizeIssueComments_def set_map_filter)

lemma discarded_at_or_before:
  assumes b: "findAuthorLastActivity dp (pr_author prView) ics ths = Some (Date b)"
    and x: "ic_created_at x \<noteq> []" "dp (ic_created_at x) = Date t" "t \<le> b"
  shows "normalizeIssueComment dp (pr_author prView) (Some (Date b)) x = None"
    and "\<forall>c \<in> set (nr_comments (normalizeAll dp prView ics ths)).
           nc_kind c = pr_comment \<longrightarrow> nc_createdAt c \<noteq> Some (ic_created_at x)"
proof -
  show "normalizeIssueComment dp (pr_author prView) (Some (Date b)) x = None"
    using x by (simp add: normalizeIssueComment_def Let_def split: option.splits)
  show "\<forall>c \<in> set (nr_comments (normalizeAll dp prView ics ths)).
           nc_kind c = pr_comment \<longrightarrow> nc_createdAt c \<noteq> Some (ic_created_at x)"
  proof (intro ballI impI notI)
    fix c
    assume c: "c \<in> set (nr_comments (normalizeAll dp prView ics ths))" "nc_kind c = pr_comment"
      and eq: "nc_createdAt c = Some (ic_created_at x)"
    from pr_comment_origin [OF c] obtain y where
      "normalizeIssueComment dp (pr_author prView) (Some (Date b)) y = Some c"
      unfolding b by blast
    from normalizeIssueComment_createdAt [OF this] eq x show False
      by simp
  qed
qed

lemma kept_after:
  assumes b: "findAuthorLastActivity dp (pr_author prView) ics ths = Some (Date b)"
    and x: "x \<in> set ics" "ic_user x = Some u" "\<not> isLikelyBot u" "u \<noteq> pr_author prView"
      "truthy (ic_body x)" "trim (the (ic_body x)) \<noteq> []" "dp (ic_created_at x) = Date t" "b < t"
  shows "\<exists>c \<in> set (nr_comments (normalizeAll dp prView ics ths)).
           normalizeIssueComment dp (pr_author prView) (Some (Date b)) x = Some c
           \<and> nc_kind c = pr_comment \<and> nc_author c = u \<and> nc_body c = the (ic_body x)
           \<and> nc_createdAt c = Some (ic_created_at x)"
proof -
  obtain c where c: "normalizeIssueComment dp (pr_author prView) (Some (Date b)) x = Some c"
    using x by (simp add: normalizeIssueComment_def Let_def)
  then have f: "nc_kind c = pr_comment \<and> nc_author c = u \<and> nc_body c = the (ic_body x)
           \<and> nc_createdAt c = Some (ic_created_at x)"
    using x by (auto simp: normalizeIssueComment_def Let_def)
  have "c \<in> set (nr_comments (normalizeAll dp prView ics ths))"
    using issue_comment_surfaced [OF x(1), of dp prView ths c] c unfolding b by simp
  then show ?thesis using c f by blast
qed

text \<open>
  C5. When a PR-author conversation reply at \<open>T2\<close> is the only activity of the PR author
  (no other conversation comment of the author carries another time, and no thread holds a
  message of the author), the activity boundary is \<open>T2\<close>. When the boundary exists, a
  conversation comment whose timestamp is at or before it is discarded, and no conversation
  comment of the output carries its timestamp; a conversation comment of a reviewer (not a
  bot, not the PR author, body not blank) whose timestamp is after the boundary is in the
  output. So the reviewer's comment at \<open>T1 < T2\<close> is excluded and the one at \<open>T3 > T2\<close>
  included.
\<close>

theorem boundary_clearing:
  "(reply \<in> set issueComments \<and> ic_user reply = Some (pr_author prView)
      \<and> ic_created_at reply \<noteq> []
      \<and> (\<forall>c \<in> set issueComments.
            ic_user c = Some (pr_author prView) \<and> ic_created_at c \<noteq> []
            \<longrightarrow> dp (ic_created_at c) = Date T2)
      \<and> (\<forall>th \<in> set inlineComments. \<forall>m \<in> set (th_comments th). im_author m \<noteq> pr_author prView)
    \<longrightarrow> nr_authorLastActivity (normalizeAll dp prView issueComments inlineComments) = Some (Date T2))
   \<and> (nr_authorLastActivity (normalizeAll dp prView issueComments inlineComments) = Some (Date b)
    \<longrightarrow> (\<forall>x \<in> set issueComments. \<forall>t.
            ic_created_at x \<noteq> [] \<and> dp (ic_created_at x) = Date t \<and> t \<le> b
            \<longrightarrow> normalizeIssueComment dp (pr_author prView) (Some (Date b)) x = None
                \<and> (\<forall>c \<in> set (nr_comments (normalizeAll dp prView issueComments inlineComments)).
                      nc_kind c = pr_comment \<longrightarrow> nc_createdAt c \<noteq> Some (ic_created_at x)))
      \<and> (\<forall>x \<in> set issueComments. \<forall>u t.
            ic_user x = Some u \<and> \<not> isLikelyBot u \<and> u \<noteq> pr_author prView
            \<and> truthy (ic_body x) \<and> trim (the (ic_body x)) \<noteq> []
            \<and> dp (ic_created_at x) = Date t \<and> b < t
            \<longrightarrow> (\<exists>c \<in> set (nr_comments (normalizeAll dp prView issueComments inlineComments)).
                   normalizeIssueComment dp (pr_author prView) (Some (Date b)) x = Some c
                   \<and> nc_kind c = pr_comment \<and> nc_author c = u \<and> nc_body c = the (ic_body x)
                   \<and> nc_createdAt c = Some (ic_created_at x))))"
proof -
  have la: "nr_authorLastActivity (normalizeAll dp prView issueComments inlineComments)
            = findAuthorLastActivity dp (pr_author prView) issueComments inlineComments"
    by (simp add: normalizeAll_def Let_def)
  show ?thesis
    unfolding la
  proof (intro conjI impI ballI allI)
    assume "reply \<in> set issueComments \<and> ic_user reply = Some (pr_author prView)
      \<and> ic_created_at reply \<noteq> []
      \<and> (\<forall>c \<in> set issueComments.
            ic_user c = Some (pr_author prView) \<and> ic_created_at c \<noteq> []
            \<longrightarrow> dp (ic_created_at c) = Date T2)
      \<and> (\<forall>th \<in> set inlineComments. \<forall>m \<in> set (th_comments th). im_author m \<noteq> pr_author prView)"
    then show "findAuthorLastActivity dp (pr_author prView) issueComments inlineComments = Some (Date T2)"
      by (intro single_reply_boundary [of reply]) simp_all
  next
    fix x :: issueComment and t
    assume b: "findAuthorLastActivity dp (pr_author prView) issueComments inlineComments = Some (Date b)"
      and x: "ic_created_at x \<noteq> [] \<and> dp (ic_created_at x) = Date t \<and> t \<le> b"
    then show "normalizeIssueComment dp (pr_author prView) (Some (Date b)) x = None"
      by (intro discarded_at_or_before(1) [OF b, of x t]) simp_all
  next
    fix x :: issueComment and t c
    assume b: "findAuthorLastActivity dp (pr_author prView) issueComments inlineComments = Some (Date b)"
      and x: "ic_created_at x \<noteq> [] \<and> dp (ic_created_at x) = Date t \<and> t \<le> b"
      and c: "c \<in> set (nr_comments (normalizeAll dp prView issueComments inlineComments))"
        "nc_kind c = pr_comment"
    from x have "\<forall>c \<in> set (nr_comments (normalizeAll dp prView issueComments inlineComments)).
           nc_kind c = pr_comment \<longrightarrow> nc_createdAt c \<noteq> Some (ic_created_at x)"
      by (intro discarded_at_or_before(2) [OF b, of x t]) simp_all
    then show "nc_createdAt c \<noteq> Some (ic_created_at x)"
      using c by blast
  next
    fix x :: issueComment and u t
    assume b: "findAuthorLastActivity dp (pr_author prView) issueComments inlineComments = Some (Date b)"
      and xin: "x \<in> set issueComments"
      and x: "ic_user x = Some u \<and> \<not> isLikelyBot u \<and> u \<noteq> pr_author prView
            \<and> truthy (ic_body x) \<and> trim (the (ic_body x)) \<noteq> []
            \<and> dp (ic_created_at x) = Date t \<and> b < t"
    then show "\<exists>c \<in> set (nr_comments (normalizeAll dp prView issueComments inlineComments)).
                   normalizeIssueComment dp (pr_author prView) (Some (Date b)) x = Some c
                   \<and> nc_kind c = pr_comment \<and> nc_author c = u \<and> nc_body c = the (ic_body x)
                   \<and> nc_createdAt c = Some (ic_created_at x)"
      by (intro kept_after [OF b xin, of u t]) simp_all
  qed
qed

theorem boundary_clearing_witness:
  "nr_authorLastActivity (normalizeAll exampleDate (examplePR exampleReviews)
      exampleIssueComments mixedThreads) = Some (Date 1704153600000)
   \<and> exampleDate (ic_created_at (exampleIssueComments ! 0)) = Date 1704067200000
   \<and> normalizeIssueComment exampleDate (pr_author (examplePR exampleReviews))
        (Some (Date 1704153600000)) (exampleIssueComments ! 0) = None
   \<and> exampleDate (ic_created_at (exampleIssueComments ! 2)) = Date 1704240000000
   \<and> (\<exists>c \<in> set (nr_comments (normalizeAll exampleDate (examplePR exampleReviews)
                     exampleIssueComments mixedThreads)).
         normalizeIssueComment exampleDate (pr_author (examplePR exampleReviews))
           (Some (Date 1704153600000)) (exampleIssueComments ! 2) = Some c
         \<and> nc_kind c = pr_comment \<and> nc_author c = ''carol''
         \<and> nc_body c = the (ic_body (exampleIssueComments ! 2))
         \<and> nc_createdAt c = Some (ic_created_at (exampleIssueComments ! 2)))"
proof -
  let ?pr = "examplePR exampleReviews"
  let ?reply = "exampleIssueComments ! 1"
  let ?x1 = "exampleIssueComments ! 0"
  let ?x3 = "exampleIssueComments ! 2"
  note inst = boundary_clearing [of ?reply exampleIssueComments ?pr exampleDate 1704153600000
      mixedThreads 1704153600000]
  have "?reply \<in> set exampleIssueComments \<and> ic_user ?reply = Some (pr_author ?pr)
      \<and> ic_created_at ?reply \<noteq> []
      \<and> (\<forall>c \<in> set exampleIssueComments.
            ic_user c = Some (pr_author ?pr) \<and> ic_created_at c \<noteq> []
            \<longrightarrow> exampleDate (ic_created_at c) = Date 1704153600000)
      \<and> (\<forall>th \<in> set mixedThreads. \<forall>m \<in> set (th_comments th). im_author m \<noteq> pr_author ?pr)"
    by code_simp
  with inst have b: "nr_authorLastActivity (normalizeAll exampleDate ?pr exampleIssueComments
      mixedThreads) = Some (Date 1704153600000)"
    by (rule conjunct1 [THEN mp])
  have x1: "?x1 \<in> set exampleIssueComments" "ic_created_at ?x1 \<noteq> []"
      "exampleDate (ic_created_at ?x1) = Date 1704067200000"
      "(1704067200000 :: int) \<le> 1704153600000"
    by code_simp+
  have x3: "?x3 \<in> set exampleIssueComments" "ic_user ?x3 = Some ''carol''"
      "\<not> isLikelyBot ''carol''" "''carol'' \<noteq> pr_author ?pr" "truthy (ic_body ?x3)"
      "trim (the (ic_body ?x3)) \<noteq> []" "exampleDate (ic_created_at ?x3) = Date 1704240000000"
      "(1704153600000 :: int) < 1704240000000"
    by code_simp+
  from inst b have rest: "(\<forall>x \<in> set exampleIssueComments. \<forall>t.
            ic_created_at x \<noteq> [] \<and> exampleDate (ic_created_at x) = Date t \<and> t \<le> 1704153600000
            \<longrightarrow> normalizeIssueComment exampleDate (pr_author ?pr) (Some (Date 1704153600000)) x = None
                \<and> (\<forall>c \<in> set (nr_comments (normalizeAll exampleDate ?pr exampleIssueComments mixedThreads)).
                      nc_kind c = pr_comment \<longrightarrow> nc_createdAt c \<noteq> Some (ic_created_at x)))
      \<and> (\<forall>x \<in> set exampleIssueComments. \<forall>u t.
            ic_user x = Some u \<and> \<not> isLikelyBot u \<and> u \<noteq> pr_author ?pr
            \<and> truthy (ic_body x) \<and> trim (the (ic_body x)) \<noteq> []
            \<and> exampleDate (ic_created_at x) = Date t \<and> 1704153600000 < t
            \<longrightarrow> (\<exists>c \<in> set (nr_comments (normalizeAll exampleDate ?pr exampleIssueComments mixedThreads)).
                   normalizeIssueComment exampleDate (pr_author ?pr) (Some (Date 1704153600000)) x = Some c
                   \<and> nc_kind c = pr_comment \<and> nc_author c = u \<and> nc_body c = the (ic_body x)
                   \<and> nc_createdAt c = Some (ic_created_at x)))"
    by (rule conjunct2 [THEN mp])
  from rest x1 have e: "normalizeIssueComment exampleDate (pr_author ?pr)
        (Some (Date 1704153600000)) ?x1 = None"
    by blast
  from rest x3 have i: "\<exists>c \<in> set (nr_comments (normalizeAll exampleDate ?pr exampleIssueComments mixedThreads)).
         normalizeIssueComment exampleDate (pr_author ?pr) (Some (Date 1704153600000)) ?x3 = Some c
         \<and> nc_kind c = pr_comment \<and> nc_author c = ''carol''
         \<and> nc_body c = the (ic_body ?x3)
         \<and> nc_createdAt c = Some (ic_created_at ?x3)"
    by blast
  show ?thesis
    using b x1(3) e x3(7) i by (intro conjI)
qed

section \<open>Inline threads the PR author has answered\<close>

lemma isReviewerComment_iff:
  "isReviewerComment a c = (\<not> isLikelyBot (im_author c) \<and> im_author c \<noteq> a)"
  by (simp add: isReviewerComment_def)

lemma candidatesAfter_filter:
  "candidatesAfter dp a t d =
     filter (\<lambda>c. date_gt (dp (im_createdAt c)) d) (filter (isReviewerComment a) (th_comments t))"
  by (auto simp: candidatesAfter_def isReviewerComment_iff intro: filter_cong)

lemma normalizeThread_replied:
  assumes "\<not> th_isResolved t" and "\<not> th_isOutdated t"
    and "\<exists>m \<in> set (th_comments t). im_author m = a"
  shows "normalizeThread dp a t =
           (if candidatesAfter dp a t (lastReplyDate dp a t) = [] then []
            else [inlineResult t (last (candidatesAfter dp a t (lastReplyDate dp a t)))])"
proof -
  have r: "list_ex (\<lambda>c. im_author c = a) (th_comments t)"
    using assms(3) by (simp add: list_ex_iff)
  show ?thesis
  proof (cases "filter (isReviewerComment a) (th_comments t) = []")
    case True
    then have "candidatesAfter dp a t (lastReplyDate dp a t) = []"
      by (simp add: candidatesAfter_filter)
    then show ?thesis
      using assms(1,2) True by (simp add: normalizeThread_def Let_def)
  next
    case False
    then show ?thesis
      using assms(1,2) r
      by (simp add: normalizeThread_def Let_def candidatesAfter_filter lastReplyDate_def
          authorReplies_def)
  qed
qed

lemma fold_max_last:
  "sorted (x # xs) \<Longrightarrow> fold max xs x = last (x # xs)"
proof (induction xs arbitrary: x)
  case Nil
  then show ?case by simp
next
  case (Cons y ys)
  then have "max y x = y" by simp
  then show ?case using Cons by simp
qed

lemma timesOf_valid:
  "list_all (\<lambda>m. dp (im_createdAt m) \<noteq> InvalidDate) ms \<Longrightarrow>
   map Date (timesOf dp ms) = map (\<lambda>m. dp (im_createdAt m)) ms"
  by (induction ms) (auto simp: timesOf_def split: jsdate.splits)

lemma chronological_last_is_latest:
  assumes "chronological dp (authorReplies a t)" and "authorReplies a t \<noteq> []"
  shows "lastReplyDate dp a t = latestReplyDate dp a t"
proof -
  let ?ms = "authorReplies a t"
  have v: "map Date (timesOf dp ?ms) = map (\<lambda>m. dp (im_createdAt m)) ?ms"
    using assms(1) by (simp add: chronological_def timesOf_valid)
  then have ne: "timesOf dp ?ms \<noteq> []"
    using assms(2) by (metis map_is_Nil_conv)
  then obtain x xs where xs: "timesOf dp ?ms = x # xs"
    by (cases "timesOf dp ?ms") auto
  have "lastReplyDate dp a t = last (map (\<lambda>m. dp (im_createdAt m)) ?ms)"
    using assms(2) by (simp add: lastReplyDate_def last_map)
  also have "\<dots> = Date (last (timesOf dp ?ms))"
    using ne by (simp add: v [symmetric] last_map)
  also have "\<dots> = Date (fold max xs x)"
    using assms(1) unfolding chronological_def xs by (simp only: fold_max_last)
  finally show ?thesis
    by (simp add: latestReplyDate_def xs)
qed

lemma timesOf_map:
  "list_all (\<lambda>m. dp (im_createdAt m) \<noteq> InvalidDate) ms \<Longrightarrow>
   timesOf dp ms = map (\<lambda>m. case dp (im_createdAt m) of Date x \<Rightarrow> x | InvalidDate \<Rightarrow> 0) ms"
  by (induction ms) (auto simp: timesOf_def split: jsdate.splits)

lemma chronological_filter:
  assumes "chronological dp ms"
  shows "chronological dp (filter P ms)"
proof -
  let ?tv = "\<lambda>m. case dp (im_createdAt m) of Date x \<Rightarrow> x | InvalidDate \<Rightarrow> (0::int)"
  have v: "list_all (\<lambda>m. dp (im_createdAt m) \<noteq> InvalidDate) ms"
    and s: "sorted (timesOf dp ms)"
    using assms by (simp_all add: chronological_def)
  have vf: "list_all (\<lambda>m. dp (im_createdAt m) \<noteq> InvalidDate) (filter P ms)"
    using v by (simp add: list_all_iff)
  have "sorted (map ?tv ms)"
    using s unfolding timesOf_map [OF v] .
  then have "sorted (map ?tv (filter P ms))"
    by (rule sorted_filter)
  then have "sorted (timesOf dp (filter P ms))"
    unfolding timesOf_map [OF vf] .
  then show ?thesis
    using vf by (simp add: chronological_def)
qed

lemma normalizeInlineComments_split:
  "normalizeInlineComments dp (before @ t # after) a =
     normalizeInlineComments dp before a @ normalizeThread dp a t
     @ normalizeInlineComments dp after a"
  by (simp add: normalizeInlineComments_def)

text \<open>
  C3. For every inline thread that is neither resolved nor outdated, in which the PR author
  posted at least one message, the candidates (messages whose author is neither a bot nor the
  PR author) are restricted to those dated strictly after the PR author's latest message
  timestamp in the thread; if none remain the thread contributes no Normalized Comment,
  otherwise it contributes exactly one, whose body and author are those of the last remaining
  candidate in the order of the thread. The order of a thread is the chronological order of
  its messages, as the data model has it: that is the hypothesis \<open>chronological\<close>, under which
  the last message of the PR author, the one the normalizer reads, carries the latest of the
  author's timestamps.
\<close>

theorem inline_thread_after_latest_reply:
  assumes "\<not> th_isResolved t" and "\<not> th_isOutdated t"
    and "\<exists>m \<in> set (th_comments t). im_author m = a"
    and "chronological dp (th_comments t)"
  shows "(candidatesAfter dp a t (latestReplyDate dp a t) = [] \<longrightarrow> normalizeThread dp a t = [])
    \<and> (candidatesAfter dp a t (latestReplyDate dp a t) \<noteq> [] \<longrightarrow>
         (\<exists>c. normalizeThread dp a t = [c]
              \<and> c = inlineResult t (last (candidatesAfter dp a t (latestReplyDate dp a t)))
              \<and> nc_body c = im_body (last (candidatesAfter dp a t (latestReplyDate dp a t)))
              \<and> nc_author c = im_author (last (candidatesAfter dp a t (latestReplyDate dp a t)))))
    \<and> normalizeInlineComments dp (before @ t # after) a
        = normalizeInlineComments dp before a @ normalizeThread dp a t
          @ normalizeInlineComments dp after a"
proof -
  have ne: "authorReplies a t \<noteq> []"
    using assms(3) by (auto simp: authorReplies_def filter_empty_conv)
  have "chronological dp (authorReplies a t)"
    unfolding authorReplies_def using assms(4) by (rule chronological_filter)
  then have eq: "lastReplyDate dp a t = latestReplyDate dp a t"
    using ne by (rule chronological_last_is_latest)
  show ?thesis
    using normalizeThread_replied [OF assms(1,2,3), of dp]
    unfolding eq
    by (simp add: inlineResult_def normalizeInlineComments_split)
qed

theorem inline_thread_after_latest_reply_witness:
  "\<not> th_isResolved (exampleThreads ! 0)
   \<and> \<not> th_isOutdated (exampleThreads ! 0)
   \<and> map im_author (th_comments (exampleThreads ! 0)) = [''dave'', ''alice'', ''dave'']
   \<and> chronological exampleDate (th_comments (exampleThreads ! 0))
   \<and> latestReplyDate exampleDate ''alice'' (exampleThreads ! 0) = Date 1704153600000
   \<and> map im_id (candidatesAfter exampleDate ''alice'' (exampleThreads ! 0) (Date 1704153600000)) = [''m3'']
   \<and> map nc_body (normalizeThread exampleDate ''alice'' (exampleThreads ! 0)) = [''but what about Y?'']
   \<and> map nc_author (normalizeThread exampleDate ''alice'' (exampleThreads ! 0)) = [''dave'']"
proof -
  let ?t = "exampleThreads ! 0"
  have h: "\<not> th_isResolved ?t" "\<not> th_isOutdated ?t"
      "\<exists>m \<in> set (th_comments ?t). im_author m = ''alice''"
      "chronological exampleDate (th_comments ?t)"
    by code_simp+
  have f: "map im_author (th_comments ?t) = [''dave'', ''alice'', ''dave'']"
      "latestReplyDate exampleDate ''alice'' ?t = Date 1704153600000"
      "map im_id (candidatesAfter exampleDate ''alice'' ?t (Date 1704153600000)) = [''m3'']"
      "im_body (last (candidatesAfter exampleDate ''alice'' ?t (Date 1704153600000))) = ''but what about Y?''"
      "im_author (last (candidatesAfter exampleDate ''alice'' ?t (Date 1704153600000))) = ''dave''"
    by code_simp+
  have ne: "candidatesAfter exampleDate ''alice'' ?t (Date 1704153600000) \<noteq> []"
    using f(3) by auto
  note inst = inline_thread_after_latest_reply [OF h, of "[]" "[]"]
  from inst ne f(2,4,5) have "\<exists>c. normalizeThread exampleDate ''alice'' ?t = [c]
      \<and> nc_body c = ''but what about Y?'' \<and> nc_author c = ''dave''"
    by simp
  then have b: "map nc_body (normalizeThread exampleDate ''alice'' ?t) = [''but what about Y?'']"
    and a: "map nc_author (normalizeThread exampleDate ''alice'' ?t) = [''dave'']"
    by auto
  show ?thesis
    using h(1,2,4) f(1,2,3) a b by (intro conjI)
qed


section \<open>The verdict kept for an author\<close>

lemma map_of_map_set: "map_of (map_set m k v) = (map_of m)(k \<mapsto> v)"
  by (induction m k v rule: map_set.induct) auto

lemma keys_map_set:
  "map fst (map_set m k v) = (if k \<in> fst ` set m then map fst m else map fst m @ [k])"
  by (induction m k v rule: map_set.induct) auto

lemma distinct_map_set: "distinct (map fst m) \<Longrightarrow> distinct (map fst (map_set m k v))"
  by (auto simp: keys_map_set)

lemma reviewStep_map_of:
  "map_of (reviewStep dp pa ala m r) a =
     (if rv_author r = Some a \<and> survives dp pa ala r
      then (case map_of m a of None \<Rightarrow> Some r | Some e \<Rightarrow> Some (challenge dp e r))
      else map_of m a)"
proof (cases "rv_author r")
  case None
  then show ?thesis by (simp add: reviewStep_def)
next
  case (Some b)
  show ?thesis
  proof (cases "survives dp pa ala r")
    case False
    then have "reviewStep dp pa ala m r = m"
      using Some by (auto simp: reviewStep_def survives_def)
    then show ?thesis using False by simp
  next
    case True
    then have s: "reviewStep dp pa ala m r =
        (case map_of m b of None \<Rightarrow> map_set m b r
         | Some e \<Rightarrow> if replaces dp r e then map_set m b r else m)"
      using Some by (auto simp: reviewStep_def survives_def replaces_def split: option.splits)
    show ?thesis
      unfolding s using Some True
      by (auto simp: map_of_map_set challenge_def split: option.splits)
  qed
qed

lemma reviewStep_distinct:
  "distinct (map fst m) \<Longrightarrow> distinct (map fst (reviewStep dp pa ala m r))"
  by (auto simp: reviewStep_def distinct_map_set split: option.splits)

lemma foldl_reviewStep_distinct:
  "distinct (map fst m) \<Longrightarrow> distinct (map fst (foldl (reviewStep dp pa ala) m rs))"
  by (induction rs arbitrary: m) (simp_all add: reviewStep_distinct)

lemma latestReviews_distinct: "distinct (map fst (latestReviews dp pa ala rs))"
  by (simp add: latestReviews_def foldl_reviewStep_distinct)

lemma foldl_reviewStep_map_of:
  "map_of (foldl (reviewStep dp pa ala) m rs) a =
     (case map_of m a of
        None \<Rightarrow> (case verdictsOf dp pa ala a rs of [] \<Rightarrow> None
                 | v # vs \<Rightarrow> Some (foldl (challenge dp) v vs))
      | Some e \<Rightarrow> Some (foldl (challenge dp) e (verdictsOf dp pa ala a rs)))"
proof (induction rs arbitrary: m)
  case Nil
  then show ?case by (simp add: verdictsOf_def split: option.splits)
next
  case (Cons r rs)
  show ?case
    unfolding foldl_Cons Cons.IH reviewStep_map_of
    by (simp add: verdictsOf_def split: option.splits)
qed

lemma latestReviews_map_of:
  "map_of (latestReviews dp pa ala rs) a =
     (case verdictsOf dp pa ala a rs of [] \<Rightarrow> None
      | v # vs \<Rightarrow> Some (foldl (challenge dp) v vs))"
  by (simp add: latestReviews_def foldl_reviewStep_map_of)

lemma filter_author_map_filter:
  assumes "distinct (map fst m)"
  shows "filter (\<lambda>c. nc_author c = a) (List.map_filter (emitReview prView) m) =
           (case map_of m a of None \<Rightarrow> []
            | Some r \<Rightarrow> (case emitReview prView (a, r) of None \<Rightarrow> [] | Some c \<Rightarrow> [c]))"
  using assms
proof (induction m)
  case Nil
  then show ?case by simp
next
  case (Cons e m)
  obtain k r where e: "e = (k, r)" by (cases e)
  have ih: "filter (\<lambda>c. nc_author c = a) (List.map_filter (emitReview prView) m) =
           (case map_of m a of None \<Rightarrow> []
            | Some r \<Rightarrow> (case emitReview prView (a, r) of None \<Rightarrow> [] | Some c \<Rightarrow> [c]))"
    using Cons by simp
  show ?case
  proof (cases "k = a")
    case True
    then have "map_of m a = None"
      using Cons.prems e by (simp add: map_of_eq_None_iff)
    then have "filter (\<lambda>c. nc_author c = a) (List.map_filter (emitReview prView) m) = []"
      using ih by simp
    then show ?thesis
      using True e by (auto split: option.splits dest: emitReview_fields)
  next
    case False
    then show ?thesis
      using ih e by (auto split: option.splits dest: emitReview_fields)
  qed
qed

lemma challenge_mem: "foldl (challenge dp) v vs \<in> set (v # vs)"
  by (induction vs arbitrary: v) (auto simp: challenge_def)

lemma challenge_max:
  assumes "\<forall>r \<in> set (v # vs). verdictTime dp r \<noteq> None"
  shows "\<forall>r \<in> set (v # vs). the (verdictTime dp r) \<le> the (verdictTime dp (foldl (challenge dp) v vs))"
  using assms
proof (induction vs arbitrary: v)
  case Nil
  then show ?case by simp
next
  case (Cons w ws)
  let ?k = "foldl (challenge dp) (challenge dp v w) ws"
  have cm: "challenge dp v w \<in> {v, w}" by (simp add: challenge_def)
  then have "\<forall>r \<in> set (challenge dp v w # ws). verdictTime dp r \<noteq> None"
    using Cons.prems by auto
  from Cons.IH [OF this]
  have ih: "\<forall>r \<in> set (challenge dp v w # ws). the (verdictTime dp r) \<le> the (verdictTime dp ?k)"
    by simp
  obtain tv tw where t: "verdictTime dp v = Some tv" "verdictTime dp w = Some tw"
    using Cons.prems by auto
  have "tv \<le> the (verdictTime dp (challenge dp v w)) \<and> tw \<le> the (verdictTime dp (challenge dp v w))"
    using t
    by (auto simp: challenge_def replaces_def verdictTime_def split: if_splits elim!: getTime.elims)
  then show ?case
    using ih t by fastforce
qed

lemma normalizeReviews_of_author:
  "filter (\<lambda>c. nc_author c = a) (normalizeReviews dp prView ala) =
     (case keptVerdict dp (verdictsOf dp (pr_author prView) ala a (pr_reviews prView)) of
        None \<Rightarrow> []
      | Some r \<Rightarrow> (case emitReview prView (a, r) of None \<Rightarrow> [] | Some c \<Rightarrow> [c]))"
  unfolding normalizeReviews_def
  by (simp add: filter_author_map_filter [OF latestReviews_distinct] latestReviews_map_of
      keptVerdict_def)

lemma keptVerdict_mem: "keptVerdict dp vs = Some k \<Longrightarrow> k \<in> set vs"
  using challenge_mem [of dp] by (auto simp: keptVerdict_def split: list.splits)

lemma keptVerdict_max:
  assumes "\<forall>r \<in> set vs. verdictTime dp r \<noteq> None" and "keptVerdict dp vs = Some k"
  shows "\<forall>r \<in> set vs. the (verdictTime dp r) \<le> the (verdictTime dp k)"
proof (cases vs)
  case Nil
  then show ?thesis by simp
next
  case (Cons v rest)
  then have "k = foldl (challenge dp) v rest"
    using assms(2) by (simp add: keptVerdict_def)
  then show ?thesis
    using challenge_max [of v rest dp] assms(1) Cons by simp
qed

lemma keptVerdict_two_timed:
  assumes "verdictTime dp v = Some t1" and "verdictTime dp w = Some t2" and "t1 \<noteq> t2"
  shows "keptVerdict dp [v, w] = Some (if t1 < t2 then w else v)"
  using assms
  by (auto simp: keptVerdict_def challenge_def replaces_def verdictTime_def
      split: if_splits elim!: getTime.elims)

lemma keptVerdict_two_untimed:
  assumes "verdictTime dp v = None \<or> verdictTime dp w = None"
  shows "keptVerdict dp [v, w] = Some v"
  using assms
  by (auto simp: keptVerdict_def challenge_def replaces_def verdictTime_def
      split: if_splits elim!: getTime.elims date_gt.elims)

text \<open>
  C2, as amended. The surviving verdicts are grouped by author and one verdict is kept for
  each author: the author's first surviving verdict, replaced by a later-listed one only when
  both carry a submission timestamp and the new one's is strictly later. The comments of the
  output by that author are what the kept verdict alone emits, at most one. The kept verdict
  is one of the author's; when all of them carry a timestamp it has the latest; of two
  verdicts with different timestamps the later one is kept; of two verdicts of which one
  lacks a timestamp the first-listed one is kept.
\<close>

theorem kept_verdict_per_author:
  "map_of (latestReviews dp prAuthor authorLastActivity reviews) a
     = keptVerdict dp (verdictsOf dp prAuthor authorLastActivity a reviews)
   \<and> filter (\<lambda>c. nc_author c = a) (normalizeReviews dp prView authorLastActivity)
     = (case keptVerdict dp (verdictsOf dp (pr_author prView) authorLastActivity a (pr_reviews prView)) of
          None \<Rightarrow> []
        | Some r \<Rightarrow> (case emitReview prView (a, r) of None \<Rightarrow> [] | Some c \<Rightarrow> [c]))
   \<and> (\<forall>k. keptVerdict dp vs = Some k \<longrightarrow> k \<in> set vs)
   \<and> ((\<forall>r \<in> set vs. verdictTime dp r \<noteq> None) \<longrightarrow>
        (\<forall>k. keptVerdict dp vs = Some k \<longrightarrow>
           (\<forall>r \<in> set vs. the (verdictTime dp r) \<le> the (verdictTime dp k))))
   \<and> (verdictTime dp v = Some t1 \<and> verdictTime dp w = Some t2 \<and> t1 \<noteq> t2 \<longrightarrow>
        keptVerdict dp [v, w] = Some (if t1 < t2 then w else v))
   \<and> (verdictTime dp v = None \<or> verdictTime dp w = None \<longrightarrow> keptVerdict dp [v, w] = Some v)"
proof (intro conjI impI allI)
  show "map_of (latestReviews dp prAuthor authorLastActivity reviews) a
     = keptVerdict dp (verdictsOf dp prAuthor authorLastActivity a reviews)"
    by (simp add: latestReviews_map_of keptVerdict_def)
next
  show "filter (\<lambda>c. nc_author c = a) (normalizeReviews dp prView authorLastActivity)
     = (case keptVerdict dp (verdictsOf dp (pr_author prView) authorLastActivity a (pr_reviews prView)) of
          None \<Rightarrow> []
        | Some r \<Rightarrow> (case emitReview prView (a, r) of None \<Rightarrow> [] | Some c \<Rightarrow> [c]))"
    by (rule normalizeReviews_of_author)
next
  fix k assume "keptVerdict dp vs = Some k"
  then show "k \<in> set vs" by (rule keptVerdict_mem)
next
  fix k assume "\<forall>r \<in> set vs. verdictTime dp r \<noteq> None" and "keptVerdict dp vs = Some k"
  then show "\<forall>r \<in> set vs. the (verdictTime dp r) \<le> the (verdictTime dp k)"
    by (rule keptVerdict_max)
next
  assume "verdictTime dp v = Some t1 \<and> verdictTime dp w = Some t2 \<and> t1 \<noteq> t2"
  then show "keptVerdict dp [v, w] = Some (if t1 < t2 then w else v)"
    by (intro keptVerdict_two_timed) simp_all
next
  assume "verdictTime dp v = None \<or> verdictTime dp w = None"
  then show "keptVerdict dp [v, w] = Some v"
    by (rule keptVerdict_two_untimed)
qed

theorem kept_verdict_per_author_witness:
  "verdictsOf exampleDate ''alice'' None ''bob'' rereviewReviews = [rereviewReviews ! 0, rereviewReviews ! 1]
   \<and> verdictTime exampleDate (rereviewReviews ! 0) = Some 1704067200000
   \<and> verdictTime exampleDate (rereviewReviews ! 1) = Some 1704240000000
   \<and> map_of (latestReviews exampleDate ''alice'' None rereviewReviews) ''bob'' = Some (rereviewReviews ! 1)
   \<and> map nc_body (filter (\<lambda>c. nc_author c = ''bob'')
        (normalizeReviews exampleDate (examplePR rereviewReviews) None)) = [''later remark'']
   \<and> verdictTime exampleDate (untimedFirstReviews ! 0) = None
   \<and> keptVerdict exampleDate [untimedFirstReviews ! 0, untimedFirstReviews ! 1]
       = Some (untimedFirstReviews ! 0)"
proof -
  let ?v = "rereviewReviews ! 0" and ?w = "rereviewReviews ! 1"
  let ?pr = "examplePR rereviewReviews"
  have vs: "verdictsOf exampleDate ''alice'' None ''bob'' rereviewReviews = [?v, ?w]"
    by code_simp
  have vs': "verdictsOf exampleDate (pr_author ?pr) None ''bob'' (pr_reviews ?pr) = [?v, ?w]"
    by code_simp
  have tv: "verdictTime exampleDate ?v = Some 1704067200000"
    and tw: "verdictTime exampleDate ?w = Some 1704240000000"
    and ne: "(1704067200000 :: int) \<noteq> 1704240000000"
    and lt: "(1704067200000 :: int) < 1704240000000"
    by code_simp+
  have em: "map nc_body (case emitReview ?pr (''bob'', ?w) of None \<Rightarrow> [] | Some c \<Rightarrow> [c])
            = [''later remark'']"
    by code_simp
  have un: "verdictTime exampleDate (untimedFirstReviews ! 0) = None"
    by code_simp
  note i1 = kept_verdict_per_author [of exampleDate "''alice''" None rereviewReviews "''bob''"
      ?pr "[?v, ?w]" ?v 1704067200000 ?w 1704240000000]
  note i2 = kept_verdict_per_author [of exampleDate "''alice''" None rereviewReviews "''bob''"
      ?pr "[?v, ?w]" "untimedFirstReviews ! 0" 0 "untimedFirstReviews ! 1" 0]
  from i1 tv tw ne lt have k: "keptVerdict exampleDate [?v, ?w] = Some ?w"
    by simp
  from i1 have m: "map_of (latestReviews exampleDate ''alice'' None rereviewReviews) ''bob'' = Some ?w"
    unfolding vs k by (rule conjunct1)
  from i1 have "filter (\<lambda>c. nc_author c = ''bob'') (normalizeReviews exampleDate ?pr None)
     = (case emitReview ?pr (''bob'', ?w) of None \<Rightarrow> [] | Some c \<Rightarrow> [c])"
    unfolding vs' k by simp
  then have b: "map nc_body (filter (\<lambda>c. nc_author c = ''bob'')
        (normalizeReviews exampleDate ?pr None)) = [''later remark'']"
    using em by simp
  from i2 un have u: "keptVerdict exampleDate [untimedFirstReviews ! 0, untimedFirstReviews ! 1]
       = Some (untimedFirstReviews ! 0)"
    by simp
  show ?thesis
    using vs tv tw m b un u by (intro conjI)
qed


text \<open>
  C2 as stated lets the verdict without a timestamp lose every comparison. Below bob's first
  verdict has no submission time and his second has one: the first is kept and emitted.
\<close>

theorem timestamped_verdict_kept_counterexample:
  "map rv_author untimedFirstReviews = [Some ''bob'', Some ''bob'']
   \<and> map rv_submittedAt untimedFirstReviews = [None, Some ''2024-01-01T00:00:00Z'']
   \<and> map rv_body untimedFirstReviews = [Some ''first pass'', Some ''second pass'']
   \<and> findAuthorLastActivity exampleDate ''alice'' [] [] = None
   \<and> map (rv_body \<circ> snd) (latestReviews exampleDate ''alice'' None untimedFirstReviews)
       = [Some ''first pass'']
   \<and> map nc_body (nr_comments (normalizeAll exampleDate (examplePR untimedFirstReviews) [] []))
       = [''first pass'']
   \<and> map nc_createdAt (nr_comments (normalizeAll exampleDate (examplePR untimedFirstReviews) [] []))
       = [None]"
  by code_simp

end
